theory Spec2Isabelle
  imports Main "HOL-Library.Sublist"
begin

section \<open>Data model of the import checker\<close>

text \<open>
  The repository holds two generations of the same checker: the command-line
  \<open>repocheck\<close> and the terminal-UI \<open>scanAndReport\<close> of \<open>monocheck.ts\<close>. Both walk the
  import declarations and the commented imports of every source file and push one
  \<open>ImportIssue\<close> per non-canonical occurrence. The records below follow the TypeScript
  interfaces. A third copy of the scan, in the second half of \<open>helpers.ts\<close>, classifies
  in the same way but leaves every fix to the terminal UI; it is not modelled. The
  file system is a parameter of the model and is the same in every pass, since a fix
  changes only the text of the scanned file. A JavaScript string is modelled as a \<open>string\<close> whose characters stand for
  the UTF-16 code units below 256.
\<close>

subsection \<open>JavaScript strings\<close>

text \<open>\<open>s.startsWith(p)\<close>.\<close>

definition js_startsWith :: "string \<Rightarrow> string \<Rightarrow> bool" where
  "js_startsWith s p = prefix p s"

text \<open>\<open>s.includes(p)\<close>: \<open>p\<close> occurs in \<open>s\<close> as a contiguous substring.\<close>

fun js_includes :: "string \<Rightarrow> string \<Rightarrow> bool" where
  "js_includes [] p = (p = [])"
| "js_includes (c # cs) p = (prefix p (c # cs) \<or> js_includes cs p)"

text \<open>\<open>s.split(d)\<close> for a one-character separator: never empty, \<open>\<close> gives \<open>[]\<close>.\<close>

fun js_split :: "char \<Rightarrow> string \<Rightarrow> string list" where
  "js_split d [] = [[]]"
| "js_split d (c # cs) =
     (if c = d then [] # js_split d cs
      else (case js_split d cs of [] \<Rightarrow> [[c]] | r # rs \<Rightarrow> (c # r) # rs))"

text \<open>\<open>xs.join(d)\<close>.\<close>

fun js_join :: "string \<Rightarrow> string list \<Rightarrow> string" where
  "js_join d [] = []"
| "js_join d [x] = x"
| "js_join d (x # y # r) = x @ d @ js_join d (y # r)"

text \<open>
  The first occurrence of a pattern string: the text before it and the text after it
  (\<open>indexOf\<close>, then the two slices around the match).
\<close>

fun split_first :: "string \<Rightarrow> string \<Rightarrow> (string \<times> string) option" where
  "split_first pat [] = (if pat = [] then Some ([], []) else None)"
| "split_first pat (c # cs) =
     (if prefix pat (c # cs) then Some ([], drop (length pat) (c # cs))
      else map_option (\<lambda>(b, a). (c # b, a)) (split_first pat cs))"

text \<open>
  \<open>GetSubstitution\<close> of ECMAScript for a string pattern (no capture groups): in the
  replacement text \<open>$$\<close> stands for a dollar sign, \<open>$&\<close> for the matched text, \<open>$\<close>
  followed by a backquote for the text before the match and \<open>$\<close> followed by a quote
  for the text after it; every other character, a dollar sign before a digit
  included, stands for itself.
\<close>

fun get_substitution :: "string \<Rightarrow> string \<Rightarrow> string \<Rightarrow> string \<Rightarrow> string" where
  "get_substitution m b a [] = []"
| "get_substitution m b a [c] = [c]"
| "get_substitution m b a (c # d # r) =
     (if c = CHR ''$'' then
        (if d = CHR ''$'' then CHR ''$'' # get_substitution m b a r
         else if d = CHR ''&'' then m @ get_substitution m b a r
         else if d = CHR 0x60 then b @ get_substitution m b a r
         else if d = CHR 0x27 then a @ get_substitution m b a r
         else c # get_substitution m b a (d # r))
      else c # get_substitution m b a (d # r))"

text \<open>\<open>s.replace(pat, rep)\<close> with a string pattern: only the first occurrence.\<close>

definition js_replace :: "string \<Rightarrow> string \<Rightarrow> string \<Rightarrow> string" where
  "js_replace s pat rep =
     (case split_first pat s of
        None \<Rightarrow> s
      | Some (b, a) \<Rightarrow> b @ get_substitution pat b a rep @ a)"

text \<open>
  White space and line terminators below code unit 256: what \<open>trim()\<close> removes and
  what \<open>\s\<close> matches.
\<close>

definition is_space :: "char \<Rightarrow> bool" where
  "is_space c \<longleftrightarrow>
     c = CHR 0x09 \<or> c = CHR 0x0A \<or> c = CHR 0x0B \<or> c = CHR 0x0C \<or> c = CHR 0x0D
     \<or> c = CHR 0x20 \<or> c = CHR 0xA0"

definition js_trim :: "string \<Rightarrow> string" where
  "js_trim s = rev (dropWhile is_space (rev (dropWhile is_space s)))"

text \<open>
  Truthiness of a \<open>string | null | undefined\<close> value, and \<open>a || b\<close> on such values.
\<close>

fun truthy :: "string option \<Rightarrow> bool" where
  "truthy None = False"
| "truthy (Some s) = (s \<noteq> [])"

definition js_or :: "string option \<Rightarrow> string option \<Rightarrow> string option" where
  "js_or a b = (if truthy a then a else b)"

text \<open>A value inside a template literal: \<open>undefined\<close> and \<open>null\<close> print their names.\<close>

fun tpl_undefined :: "string option \<Rightarrow> string" where
  "tpl_undefined None = ''undefined''"
| "tpl_undefined (Some s) = s"

fun tpl_null :: "string option \<Rightarrow> string" where
  "tpl_null None = ''null''"
| "tpl_null (Some s) = s"

subsection \<open>POSIX paths\<close>

text \<open>
  \<open>path.resolve\<close>, \<open>path.relative\<close> and \<open>path.dirname\<close> of Node on a POSIX system.
  \<open>normalize_segments\<close> is the segment walk of \<open>normalizeString\<close>: empty segments and
  \<open>.\<close> vanish, \<open>..\<close> removes the segment before it and is kept only above the start of
  a relative path.
\<close>

fun normalize_segments :: "bool \<Rightarrow> string list \<Rightarrow> string list \<Rightarrow> string list" where
  "normalize_segments up st [] = rev st"
| "normalize_segments up st (g # gs) =
     (if g = [] \<or> g = ''.'' then normalize_segments up st gs
      else if g = ''..'' then
        (case st of
           [] \<Rightarrow> normalize_segments up (if up then [g] else []) gs
         | t # ts \<Rightarrow>
             if t = ''..'' then normalize_segments up (if up then g # st else st) gs
             else normalize_segments up ts gs)
      else normalize_segments up (g # st) gs)"

text \<open>
  The arguments of \<open>resolve\<close> are read from the right until one of them is absolute;
  the list given here is already reversed and ends with the working directory.
\<close>

fun resolve_right :: "string list \<Rightarrow> string \<Rightarrow> string \<times> bool" where
  "resolve_right [] acc = (acc, False)"
| "resolve_right (p # ps) acc =
     (if p = [] then resolve_right ps acc
      else if hd p = CHR ''/'' then (p @ ''/'' @ acc, True)
      else resolve_right ps (p @ ''/'' @ acc))"

definition path_resolve :: "string \<Rightarrow> string list \<Rightarrow> string" where
  "path_resolve wd args =
     (case resolve_right (rev args @ [wd]) [] of
        (rp, absolute) \<Rightarrow>
          (let r = js_join ''/'' (normalize_segments (\<not> absolute) [] (js_split CHR ''/'' rp))
           in if absolute then CHR ''/'' # r else if r = [] then ''.'' else r))"

fun drop_common :: "string list \<Rightarrow> string list \<Rightarrow> string list \<times> string list" where
  "drop_common (x # xs) (y # ys) = (if x = y then drop_common xs ys else (x # xs, y # ys))"
| "drop_common xs ys = (xs, ys)"

text \<open>
  \<open>path.relative(from, to)\<close>: both paths are resolved, their common leading segments
  are dropped, every segment left of \<open>from\<close> becomes \<open>..\<close>, the segments left of \<open>to\<close>
  follow.
\<close>

definition path_relative :: "string \<Rightarrow> string \<Rightarrow> string \<Rightarrow> string" where
  "path_relative wd src dst =
     (if src = dst then []
      else
        (let f = path_resolve wd [src]; t = path_resolve wd [dst]
         in if f = t then []
            else
              (case drop_common (filter (\<lambda>g. g \<noteq> []) (js_split CHR ''/'' f))
                                (filter (\<lambda>g. g \<noteq> []) (js_split CHR ''/'' t)) of
                 (fs, ts) \<Rightarrow> js_join ''/'' (replicate (length fs) ''..'' @ ts))))"

text \<open>
  \<open>path.dirname\<close>: trailing slashes are skipped, then the last segment; what stands
  before the slash in front of that segment is returned.
\<close>

definition path_dirname :: "string \<Rightarrow> string" where
  "path_dirname p =
     (if p = [] then ''.''
      else
        (let hasRoot = (hd p = CHR ''/'');
             r = dropWhile (\<lambda>c. c \<noteq> CHR ''/'') (dropWhile (\<lambda>c. c = CHR ''/'') (rev (tl p)))
         in if r = [] then (if hasRoot then ''/'' else ''.'')
            else if hasRoot \<and> length r = 1 then ''//''
            else take (length r) p))"

subsection \<open>Objects read by key\<close>

text \<open>
  The configuration is the result of \<open>JSON.parse\<close>, and \<open>dependencies\<close> is an object
  literal with spread members: plain objects, whose own properties are the entries
  of the text and whose prototype is \<open>Object.prototype\<close>. A read \<open>obj[key]\<close> finds an own
  property first and an inherited one otherwise. The inherited values are functions
  (and, for \<open>__proto__\<close>, the prototype object): all of them are truthy, and none has
  a property \<open>path\<close>.
\<close>

definition object_prototype_keys :: "string list" where
  "object_prototype_keys =
     [''constructor'', ''__defineGetter__'', ''__defineSetter__'', ''hasOwnProperty'',
      ''__lookupGetter__'', ''__lookupSetter__'', ''isPrototypeOf'', ''propertyIsEnumerable'',
      ''toString'', ''valueOf'', ''__proto__'', ''toLocaleString'']"

datatype 'a property = Own 'a | Inherited | Absent

definition js_get :: "(string \<times> 'a) list \<Rightarrow> string \<Rightarrow> 'a property" where
  "js_get obj key =
     (case map_of obj key of
        Some v \<Rightarrow> Own v
      | None \<Rightarrow> if key \<in> set object_prototype_keys then Inherited else Absent)"

text \<open>
  What is thrown and not caught: the \<open>TypeError\<close> of \<open>path.resolve\<close> and
  \<open>path.relative\<close> for an argument that is not a string and of a property read on
  \<open>undefined\<close>, and the \<open>SyntaxError\<close> of \<open>JSON.parse\<close>.
\<close>

datatype error = TypeError | SyntaxError

subsection \<open>Configuration and environment\<close>

datatype Action = Rename | ReplaceMethod | Exclude

text \<open>The literal of the union type \<open>'rename' | 'replace-method' | 'exclude'\<close>.\<close>

fun action_text :: "Action \<Rightarrow> string" where
  "action_text Rename = ''rename''"
| "action_text ReplaceMethod = ''replace-method''"
| "action_text Exclude = ''exclude''"

text \<open>
  The interfaces \<open>AliasConfig\<close>, \<open>SpecialCase\<close>, \<open>CommunitySolution\<close>, \<open>DirectoryConfig\<close>
  and \<open>Config\<close>. The objects \<open>aliases\<close>, \<open>specialCases\<close> and \<open>dependencies\<close> are
  association lists in the order of \<open>Object.entries\<close>, with distinct keys; a lookup
  \<open>obj[key]\<close> is \<open>js_get\<close>. An absent \<open>prefixOnly\<close> is \<open>False\<close>,
  an absent \<open>value\<close> or \<open>dependencies\<close> is \<open>None\<close>. The fields \<open>category\<close>, \<open>priority\<close>
  and \<open>examples\<close> of a community solution are never read by the scan and are left
  out.
\<close>

record AliasConfig =
  alias_path :: string
  alias_description :: string

record SpecialCase =
  sc_action :: Action
  sc_value :: "string option"
  sc_prefixOnly :: bool

record CommunitySolution =
  cs_from :: string
  cs_to :: string
  cs_action :: Action
  cs_description :: string
  cs_prefixOnly :: bool

record DirectoryConfig =
  dir_path :: string
  dir_tsconfig :: string
  dir_report :: string
  dir_dependencies :: "(string \<times> string) list option"

record Config =
  directories :: "DirectoryConfig list"
  aliases :: "(string \<times> AliasConfig) list"
  specialCases :: "(string \<times> SpecialCase) list"

text \<open>
  What the scan reads from outside: \<open>process.cwd()\<close> (an absolute path), the file
  system through \<open>existsSync\<close>, and \<open>require.resolve(p, {paths: [cwd]})\<close>, \<open>None\<close> when
  it throws.
\<close>

record World =
  cwd :: string
  existsSync :: "string \<Rightarrow> bool"
  require_resolve :: "string \<Rightarrow> string option"

text \<open>\<open>s.split('/')[0]\<close> and \<open>s.split('/').slice(0, 2).join('/')\<close>.\<close>

definition first_segment :: "string \<Rightarrow> string" where
  "first_segment s = (case js_split CHR ''/'' s of [] \<Rightarrow> [] | g # _ \<Rightarrow> g)"

definition two_segments :: "string \<Rightarrow> string" where
  "two_segments s = js_join ''/'' (take 2 (js_split CHR ''/'' s))"

text \<open>
  \<open>importPath.includes('/') ? importPath.split('/').slice(0, 2).join('/') : aliasRoot\<close>,
  the value of \<open>fullAlias\<close> in the scan and of \<open>aliasPath\<close> in \<open>resolveImportPath\<close>.
\<close>

definition full_alias :: "string \<Rightarrow> string" where
  "full_alias ip = (if js_includes ip ''/'' then two_segments ip else first_segment ip)"

text \<open>\<open>dir.dependencies?.[rootPkg]\<close> as a condition.\<close>

definition has_dependency :: "DirectoryConfig \<Rightarrow> string \<Rightarrow> bool" where
  "has_dependency dir pkg =
     (case dir_dependencies dir of
        None \<Rightarrow> False
      | Some deps \<Rightarrow>
          (case js_get deps pkg of
             Own v \<Rightarrow> truthy (Some v)
           | Inherited \<Rightarrow> True
           | Absent \<Rightarrow> False))"

subsection \<open>The helper functions\<close>

definition exists_source :: "World \<Rightarrow> string \<Rightarrow> string option" where
  "exists_source w r =
     (if existsSync w r \<or> existsSync w (r @ ''.ts'') \<or> existsSync w (r @ ''.tsx'')
      then Some r else None)"

text \<open>
  \<open>resolve(config.aliases[key].path, relativePart)\<close> followed by the test for a source
  file. \<open>resolve\<close> checks its arguments from the right and stops at the first
  absolute one: for an inherited property, whose \<open>path\<close> is \<open>undefined\<close>, it throws
  unless \<open>relativePart\<close> is absolute.
\<close>

definition resolve_under :: "World \<Rightarrow> AliasConfig property \<Rightarrow> string \<Rightarrow> error + string option" where
  "resolve_under w entry relativePart =
     (case entry of
        Own ac \<Rightarrow> Inr (exists_source w (path_resolve (cwd w) [alias_path ac, relativePart]))
      | Inherited \<Rightarrow>
          if js_startsWith relativePart ''/''
          then Inr (exists_source w (path_resolve (cwd w) [relativePart]))
          else Inl TypeError
      | Absent \<Rightarrow> Inl TypeError)"

text \<open>\<open>resolveImportPath(importPath, file)\<close>; the file is given by its path.\<close>

definition resolveImportPath :: "Config \<Rightarrow> World \<Rightarrow> string \<Rightarrow> string \<Rightarrow> error + string option" where
  "resolveImportPath cfg w filePath ip =
     (let fileDir = path_dirname filePath
      in if js_startsWith ip ''.'' then Inr (exists_source w (path_resolve (cwd w) [fileDir, ip]))
         else
           (let aliasRoot = first_segment ip;
                aliasPath = full_alias ip
            in if js_get (aliases cfg) aliasPath \<noteq> Absent
               then resolve_under w (js_get (aliases cfg) aliasPath)
                      (js_replace ip (aliasPath @ ''/'') [])
               else if js_get (aliases cfg) aliasRoot \<noteq> Absent
               then resolve_under w (js_get (aliases cfg) aliasRoot)
                      (js_replace ip (aliasRoot @ ''/'') [])
               else Inr (require_resolve w ip)))"

text \<open>
  \<open>findMatchingAlias(resolvedPath)\<close>: the aliases whose path is a string prefix of the
  resolved path, their names sorted by \<open>(a, b) => b.length - a.length\<close> (a stable sort),
  the first name returned unless it is empty.
\<close>

definition findMatchingAlias :: "Config \<Rightarrow> string option \<Rightarrow> string option" where
  "findMatchingAlias cfg resolvedPath =
     (case resolvedPath of
        None \<Rightarrow> None
      | Some rp \<Rightarrow>
          if rp = [] then None
          else
            (case sort_key (\<lambda>a. - int (length a))
                    (map fst (filter (\<lambda>(a, ac). js_startsWith rp (alias_path ac)) (aliases cfg))) of
               [] \<Rightarrow> None
             | a # _ \<Rightarrow> if a = [] then None else Some a))"

text \<open>
  \<open>convertToAliasPath(resolvedPath, alias)\<close>. \<open>relative\<close> checks both arguments before
  anything else, so it throws for an inherited property and for \<open>null\<close>.
\<close>

definition convertToAliasPath ::
  "Config \<Rightarrow> World \<Rightarrow> string option \<Rightarrow> string \<Rightarrow> error + string option" where
  "convertToAliasPath cfg w resolvedPath alias =
     (case js_get (aliases cfg) alias of
        Absent \<Rightarrow> Inr None
      | Inherited \<Rightarrow> Inl TypeError
      | Own ac \<Rightarrow>
          (case resolvedPath of
             None \<Rightarrow> Inl TypeError
           | Some rp \<Rightarrow>
               (let relativePart =
                      map (\<lambda>c. if c = CHR 0x5C then CHR ''/'' else c)
                          (path_relative (cwd w) (alias_path ac) rp)
                in if js_startsWith relativePart ''..'' then Inr None
                   else Inr (Some (alias @ ''/'' @ relativePart)))))"

subsection \<open>The two regular expressions of the scan\<close>

text \<open>
  Both regular expressions are sequences of character classes, each taken once or
  greedily many times. \<open>rx_match\<close> matches such a sequence at the start of a text with
  the backtracking order of ECMAScript (the longest run first) and returns the
  captured runs and the text left; \<open>rx_search\<close> finds the leftmost match.
\<close>

datatype rx_item =
    One "char \<Rightarrow> bool"
  | Many "char \<Rightarrow> bool" nat
  | Capture "char \<Rightarrow> bool" nat

fun try_down :: "(nat \<Rightarrow> 'a option) \<Rightarrow> nat \<Rightarrow> nat \<Rightarrow> 'a option" where
  "try_down f lo 0 = (if lo = 0 then f 0 else None)"
| "try_down f lo (Suc k) =
     (if Suc k < lo then None
      else (case f (Suc k) of Some x \<Rightarrow> Some x | None \<Rightarrow> try_down f lo k))"

primrec rx_match :: "rx_item list \<Rightarrow> string \<Rightarrow> (string list \<times> string) option" where
  "rx_match [] = (\<lambda>s. Some ([], s))"
| "rx_match (i # r) = (\<lambda>s.
     case i of
       One p \<Rightarrow> (case s of [] \<Rightarrow> None | c # cs \<Rightarrow> if p c then rx_match r cs else None)
     | Many p lo \<Rightarrow> try_down (\<lambda>k. rx_match r (drop k s)) lo (length (takeWhile p s))
     | Capture p lo \<Rightarrow>
         try_down (\<lambda>k. map_option (\<lambda>(caps, rest). (take k s # caps, rest)) (rx_match r (drop k s)))
           lo (length (takeWhile p s)))"

fun rx_search :: "rx_item list \<Rightarrow> string \<Rightarrow> (string list \<times> string) option" where
  "rx_search items [] = rx_match items []"
| "rx_search items (c # cs) =
     (case rx_match items (c # cs) of Some r \<Rightarrow> Some r | None \<Rightarrow> rx_search items cs)"

definition lit :: "string \<Rightarrow> rx_item list" where
  "lit s = map (\<lambda>c. One (\<lambda>x. x = c)) s"

definition is_quote :: "char \<Rightarrow> bool" where
  "is_quote c \<longleftrightarrow> c = CHR 0x27 \<or> c = CHR 0x22"

text \<open>The dot of a regular expression: anything but a line terminator.\<close>

definition is_dot :: "char \<Rightarrow> bool" where
  "is_dot c \<longleftrightarrow> c \<noteq> CHR 0x0A \<and> c \<noteq> CHR 0x0D"

text \<open>\<open>/import\s+.*\s+from\s+['"]([^'"]+)['"]/\<close>\<close>

definition import_regex :: "rx_item list" where
  "import_regex =
     lit ''import'' @ [Many is_space 1, Many is_dot 0, Many is_space 1] @ lit ''from''
     @ [Many is_space 1, One is_quote, Capture (\<lambda>c. \<not> is_quote c) 1, One is_quote]"

text \<open>\<open>text.match(...)\<close>, reduced to its first group: \<open>importMatch[1]\<close>.\<close>

definition import_match :: "string \<Rightarrow> string option" where
  "import_match t =
     (case rx_search import_regex t of
        Some (cap # _, _) \<Rightarrow> Some cap
      | _ \<Rightarrow> None)"

text \<open>
  \<open>/^\s*\/\/+\s*|^#+\s*|\/\*|\*\//g\<close>: the alternatives in their order; the two
  anchored ones can only match at the start of the text.
\<close>

definition marker_alts :: "bool \<Rightarrow> rx_item list list" where
  "marker_alts at_start =
     (if at_start
      then [[Many is_space 0, One (\<lambda>c. c = CHR ''/''), Many (\<lambda>c. c = CHR ''/'') 1, Many is_space 0],
            [Many (\<lambda>c. c = CHR ''#'') 1, Many is_space 0]]
      else [])
     @ [lit ''/*'', lit ''*/'']"

fun first_alt :: "rx_item list list \<Rightarrow> string \<Rightarrow> nat option" where
  "first_alt [] s = None"
| "first_alt (a # as) s =
     (case rx_match a s of
        Some (_, rest) \<Rightarrow> Some (length s - length rest)
      | None \<Rightarrow> first_alt as s)"

text \<open>
  \<open>text.replace(/.../g, '')\<close>: every match is removed, the search going on behind
  it; the counter holds how many characters of the current match are still to be
  removed.
\<close>

fun strip_go :: "bool \<Rightarrow> nat \<Rightarrow> string \<Rightarrow> string" where
  "strip_go at_start n [] = []"
| "strip_go at_start (Suc n) (c # cs) = strip_go False n cs"
| "strip_go at_start 0 (c # cs) =
     (case first_alt (marker_alts at_start) (c # cs) of
        Some (Suc k) \<Rightarrow> strip_go False k cs
      | _ \<Rightarrow> c # strip_go False 0 cs)"

definition uncomment :: "string \<Rightarrow> string" where
  "uncomment t = strip_go True 0 t"

subsection \<open>Issues and reports\<close>

text \<open>
  \<open>interface ImportIssue\<close>. The optional flags \<open>fixed\<close> and \<open>commented\<close> are only ever
  absent or \<open>true\<close> and are only read through truthiness tests, so an absent flag is
  modelled as \<open>False\<close>. \<open>suggestion\<close> is \<open>string | null\<close>; \<open>userChoice\<close> is optional.
  The field \<open>file\<close> is named \<open>inFile\<close> here.
\<close>

record ImportIssue =
  inFile :: string
  line :: nat
  importPath :: string
  issue :: string
  suggestion :: "string option"
  fixed :: bool
  commented :: bool
  userChoice :: "string option"

text \<open>The per-directory report object written with \<open>writeFileSync(dir.report, ...)\<close>.\<close>

record Report =
  totalFiles :: nat
  totalIssues :: nat
  standardIssues :: nat
  commentedIssues :: nat
  fixedIssues :: nat
  issues :: "ImportIssue list"

definition make_report :: "nat \<Rightarrow> ImportIssue list \<Rightarrow> Report" where
  "make_report nfiles iss =
     \<lparr> totalFiles = nfiles,
       totalIssues = length iss,
       standardIssues = length (filter (\<lambda>i. \<not> commented i) iss),
       commentedIssues = length (filter (\<lambda>i. commented i) iss),
       fixedIssues = length (filter (\<lambda>i. fixed i) iss),
       issues = iss \<rparr>"

section \<open>The comment scanner\<close>

text \<open>
  \<open>findCommentedImports\<close> first walks the lines of the file text; this loop is the same
  in every generation of the checker. What it pushes has the fields \<open>text\<close>, \<open>line\<close>
  and \<open>commentType\<close>. The second loop, over the block comments of the syntax tree,
  appends its own entries behind those of the first.
\<close>

record CommentedImport =
  ci_text :: string
  ci_line :: nat
  ci_commentType :: string

text \<open>The callback of \<open>lines.forEach((lineText, index) => ...)\<close>.\<close>

definition scan_line :: "string \<Rightarrow> nat \<Rightarrow> CommentedImport list" where
  "scan_line lineText index =
     (let trimmed = js_trim lineText
      in if (js_startsWith trimmed ''//'' \<or> js_startsWith trimmed ''#'')
            \<and> js_includes trimmed ''import'' \<and> js_includes trimmed ''from''
         then [\<lparr> ci_text = trimmed, ci_line = index + 1,
                 ci_commentType = (if js_startsWith trimmed ''//'' then ''single-line'' else ''hash'') \<rparr>]
         else [])"

fun scan_lines :: "nat \<Rightarrow> string list \<Rightarrow> CommentedImport list" where
  "scan_lines index [] = []"
| "scan_lines index (l # ls) = scan_line l index @ scan_lines (Suc index) ls"

text \<open>The line-level scan of a file text: \<open>fullText.split('\n')\<close>, then the loop.\<close>

definition commented_lines :: "string \<Rightarrow> CommentedImport list" where
  "commented_lines fullText = scan_lines 0 (js_split CHR 0x0A fullText)"

text \<open>
  The lines of a block comment as the second loop cleans them. In \<open>monocheck.ts\<close> and
  \<open>repocheck\<close> a line loses a leading run of stars with the white space around it,
  \<open>l.replace(/^\s*\*+\s*/, '')\<close>, and is trimmed.
\<close>

definition strip_stars :: "string \<Rightarrow> string" where
  "strip_stars l =
     (case rx_match [Many is_space 0, Many (\<lambda>c. c = CHR ''*'') 1, Many is_space 0] l of
        Some (_, rest) \<Rightarrow> rest
      | None \<Rightarrow> l)"

definition block_lines :: "string \<Rightarrow> string list" where
  "block_lines commentText = map (\<lambda>l. js_trim (strip_stars l)) (js_split CHR 0x0A commentText)"

text \<open>
  In \<open>helpers.ts\<close> the pattern is \<open>/^\s*\/*\**\s*|\s*\*\/$/g\<close>. Its first alternative
  matches at the start of every line, possibly nothing; the search then goes on
  behind that match (one character further on when the match was empty) for the
  second alternative, a closing \<open>*/\<close> at the end of the line with the white space
  before it. Empty lines are dropped afterwards.
\<close>

definition closing_at :: "string \<Rightarrow> bool" where
  "closing_at s \<longleftrightarrow> rx_match ([Many is_space 0] @ lit ''*/'') s = Some ([], [])"

fun strip_closing :: "string \<Rightarrow> string" where
  "strip_closing [] = []"
| "strip_closing (c # cs) = (if closing_at (c # cs) then [] else c # strip_closing cs)"

definition strip_markers :: "string \<Rightarrow> string" where
  "strip_markers l =
     (case rx_match [Many is_space 0, Many (\<lambda>c. c = CHR ''/'') 0, Many (\<lambda>c. c = CHR ''*'') 0,
                     Many is_space 0] l of
        Some (_, rest) \<Rightarrow>
          if length rest < length l then strip_closing rest
          else (case l of [] \<Rightarrow> [] | c # cs \<Rightarrow> c # strip_closing cs)
      | None \<Rightarrow> strip_closing l)"

definition block_lines_helpers :: "string \<Rightarrow> string list" where
  "block_lines_helpers commentText =
     filter (\<lambda>l. l \<noteq> [])
       (map (\<lambda>l. js_trim (strip_markers l)) (js_split CHR 0x0A commentText))"

text \<open>
  The callback of the second loop, for a block comment given by the result of
  \<open>getText()\<close> and of \<open>getStartLineNumber()\<close>.
\<close>

definition scan_block :: "(string \<Rightarrow> string list) \<Rightarrow> string \<times> nat \<Rightarrow> CommentedImport list" where
  "scan_block lines_of comment =
     (case comment of
        (commentText, startLine) \<Rightarrow>
          if js_includes commentText ''import'' \<and> js_includes commentText ''from'' then
            (case find (\<lambda>l. js_startsWith l ''import'') (lines_of commentText) of
               Some importLine \<Rightarrow>
                 [\<lparr> ci_text = importLine, ci_line = startLine, ci_commentType = ''multi-line'' \<rparr>]
             | None \<Rightarrow> [])
          else [])"

text \<open>
  \<open>findCommentedImports(file)\<close>: the file is given by its text and by the block comments
  that \<open>getDescendantsOfKind(SyntaxKind.MultiLineCommentTrivia)\<close> returns for it. The
  first definition is the function of \<open>monocheck.ts\<close> and of \<open>repocheck\<close>, the second the
  one of \<open>helpers.ts\<close>.
\<close>

definition findCommentedImports :: "string \<Rightarrow> (string \<times> nat) list \<Rightarrow> CommentedImport list" where
  "findCommentedImports fullText comments =
     commented_lines fullText @ concat (map (scan_block block_lines) comments)"

definition findCommentedImports_helpers ::
  "string \<Rightarrow> (string \<times> nat) list \<Rightarrow> CommentedImport list" where
  "findCommentedImports_helpers fullText comments =
     commented_lines fullText @ concat (map (scan_block block_lines_helpers) comments)"

section \<open>Classification of one occurrence\<close>

definition quoted :: "string \<Rightarrow> string" where
  "quoted s = CHR 0x27 # s @ [CHR 0x27]"

text \<open>An issue as the object literals of the scan build it: no flag set.\<close>

definition new_issue :: "string \<Rightarrow> nat \<Rightarrow> string \<Rightarrow> string \<Rightarrow> string option \<Rightarrow> ImportIssue" where
  "new_issue f ln ip what sugg =
     \<lparr> inFile = f, line = ln, importPath = ip, issue = what, suggestion = sugg,
       fixed = False, commented = False, userChoice = None \<rparr>"

text \<open>
  The override rule of a specifier: the first entry of \<open>specialCases\<close> whose key is the
  specifier, or a prefix of it when the rule is \<open>prefixOnly\<close>.
\<close>

definition find_special :: "Config \<Rightarrow> string \<Rightarrow> (string \<times> SpecialCase) option" where
  "find_special cfg ip =
     find (\<lambda>(key, special). if sc_prefixOnly special then js_startsWith ip key else ip = key)
       (specialCases cfg)"

text \<open>The community rule of a specifier, as \<open>scanAndReport\<close> looks it up.\<close>

definition find_community :: "CommunitySolution list \<Rightarrow> string \<Rightarrow> CommunitySolution option" where
  "find_community sols ip =
     find (\<lambda>sol. if cs_prefixOnly sol then js_startsWith ip (cs_from sol) else ip = cs_from sol) sols"

text \<open>\<open>suggestionFromCommunity\<close>; the texts for a commented import start differently.\<close>

definition community_suggestion :: "bool \<Rightarrow> CommunitySolution list \<Rightarrow> string \<Rightarrow> string option" where
  "community_suggestion in_comment sols ip =
     (case find_community sols ip of
        None \<Rightarrow> None
      | Some m \<Rightarrow>
          Some (if cs_action m = Rename
                then (if in_comment then ''Uncomment and rename to: import ... from ''
                      else ''Rename to: import ... from '') @ quoted (cs_to m)
                else (if in_comment then ''Uncomment and replace with: import from ''
                      else ''Replace with: import from '') @ quoted (cs_to m)
                     @ '' ('' @ cs_description m @ '')''))"

text \<open>
  \<open>newImportPath\<close> of an override rule: for \<open>rename\<close> with \<open>prefixOnly\<close> the result of
  \<open>importPath.replace(key, special.value)\<close>, otherwise \<open>special.value\<close>; nothing for
  \<open>exclude\<close>.
\<close>

definition special_new_path :: "string \<Rightarrow> string \<Rightarrow> SpecialCase \<Rightarrow> string option" where
  "special_new_path ip key special =
     (case sc_action special of
        Rename \<Rightarrow>
          if sc_prefixOnly special then Some (js_replace ip key (tpl_undefined (sc_value special)))
          else sc_value special
      | ReplaceMethod \<Rightarrow> sc_value special
      | Exclude \<Rightarrow> None)"

text \<open>The two early \<open>continue\<close> statements of the loop over the import declarations.\<close>

definition skipped_import :: "Config \<Rightarrow> World \<Rightarrow> DirectoryConfig \<Rightarrow> string \<Rightarrow> bool" where
  "skipped_import cfg w dir ip \<longleftrightarrow>
     (\<not> js_startsWith ip ''.'' \<and> \<not> js_startsWith ip ''@'')
     \<or> (js_startsWith ip ''@''
        \<and> \<not> list_ex (\<lambda>a. js_startsWith ip a) (map fst (aliases cfg))
        \<and> (has_dependency dir (first_segment ip)
           \<or> existsSync w (path_resolve (cwd w) [''node_modules'', first_segment ip])))"

text \<open>\<open>isSpecialCaseRoot\<close>.\<close>

definition isSpecialCaseRoot :: "Config \<Rightarrow> string \<Rightarrow> bool" where
  "isSpecialCaseRoot cfg rootPkg =
     list_ex (\<lambda>(key, special). if sc_prefixOnly special then js_startsWith key rootPkg else key = rootPkg)
       (specialCases cfg)"

text \<open>
  \<open>config.aliases[fullAlias]?.path || config.aliases[aliasRoot]?.path\<close>; the \<open>path\<close> of
  an inherited property is \<open>undefined\<close>.
\<close>

definition optional_path :: "AliasConfig property \<Rightarrow> string option" where
  "optional_path entry = (case entry of Own ac \<Rightarrow> Some (alias_path ac) | _ \<Rightarrow> None)"

definition expected_path :: "Config \<Rightarrow> string \<Rightarrow> string \<Rightarrow> string option" where
  "expected_path cfg fullAlias aliasRoot =
     js_or (optional_path (js_get (aliases cfg) fullAlias))
           (optional_path (js_get (aliases cfg) aliasRoot))"

subsection \<open>An import declaration in \<open>scanAndReport\<close>\<close>

text \<open>
  The body of the loop over \<open>file.getImportDeclarations()\<close> in \<open>monocheck.ts\<close>, for one
  declaration with specifier \<open>ip\<close> at line \<open>ln\<close> of the file \<open>filePath\<close>. The result is the
  issue pushed, if any, and the argument of \<open>importDecl.setModuleSpecifier\<close>, if it
  is called; \<open>Inl\<close> when a helper throws, which ends the whole scan. \<open>autoFix\<close> and
  \<open>dryRun\<close> are the flags \<open>--fix\<close> and \<open>--dry-run\<close>.
\<close>

definition scanAndReport_import ::
  "Config \<Rightarrow> World \<Rightarrow> CommunitySolution list \<Rightarrow> DirectoryConfig \<Rightarrow> bool \<Rightarrow> bool
   \<Rightarrow> string \<Rightarrow> string \<Rightarrow> nat \<Rightarrow> error + (ImportIssue option \<times> string option)" where
  "scanAndReport_import cfg w sols dir autoFix dryRun filePath ip ln =
     (let relativeFilePath = path_relative (cwd w) (cwd w) filePath
      in if skipped_import cfg w dir ip then Inr (None, None)
         else
           (case resolveImportPath cfg w filePath ip of
              Inl e \<Rightarrow> Inl e
            | Inr resolvedPath \<Rightarrow>
           (let suggestionFromCommunity = community_suggestion False sols ip
            in case find_special cfg ip of
                 Some (key, special) \<Rightarrow>
                   (let newImportPath = special_new_path ip key special;
                        sugg =
                          (case sc_action special of
                             Rename \<Rightarrow>
                               js_or suggestionFromCommunity
                                 (Some (''Rename to: import ... from ''
                                        @ quoted (tpl_undefined newImportPath)))
                           | ReplaceMethod \<Rightarrow>
                               js_or suggestionFromCommunity
                                 (Some (''Replace with: import { useUser } from ''
                                        @ quoted (tpl_undefined newImportPath)
                                        @ '' (adjust usage accordingly)''))
                           | Exclude \<Rightarrow> Some ''Excluded from checks'');
                        i = new_issue relativeFilePath ln ip
                              (''Special case: '' @ action_text (sc_action special)) sugg
                    in if autoFix \<and> truthy newImportPath \<and> sc_action special \<noteq> Exclude \<and> \<not> dryRun
                       then Inr (Some (i\<lparr>fixed := True\<rparr>), newImportPath)
                       else Inr (Some i, None))
               | None \<Rightarrow>
                   if js_startsWith ip ''.'' then
                     (case findMatchingAlias cfg resolvedPath of
                        Some suggestedAlias \<Rightarrow>
                          (case convertToAliasPath cfg w resolvedPath suggestedAlias of
                             Inl e \<Rightarrow> Inl e
                           | Inr relativeImportPath \<Rightarrow>
                          (let i = new_issue relativeFilePath ln ip
                                     (''Relative import should use alias '' @ quoted suggestedAlias)
                                     (if truthy relativeImportPath
                                      then Some (''Change to: import ... from ''
                                                 @ quoted (tpl_null relativeImportPath))
                                      else suggestionFromCommunity)
                           in if autoFix \<and> truthy relativeImportPath \<and> \<not> dryRun
                              then Inr (Some (i\<lparr>fixed := True\<rparr>), relativeImportPath)
                              else Inr (Some i, None)))
                      | None \<Rightarrow>
                          if \<not> truthy resolvedPath then
                            Inr (Some (new_issue relativeFilePath ln ip
                                     (''Relative import '' @ quoted ip @ '' cannot be resolved'')
                                     (js_or suggestionFromCommunity
                                        (Some (''File not found at ''
                                               @ path_resolve (cwd w) [path_dirname filePath, ip])))),
                             None)
                          else Inr (None, None))
                   else if js_startsWith ip ''@'' then
                     (let aliasRoot = first_segment ip;
                          fullAlias = full_alias ip
                      in if js_get (aliases cfg) fullAlias = Absent \<and> js_get (aliases cfg) aliasRoot = Absent
                         then
                           (let rootPkg = aliasRoot;
                                sugg =
                                  js_or suggestionFromCommunity
                                    (if isSpecialCaseRoot cfg rootPkg \<or> has_dependency dir rootPkg
                                     then None
                                     else Some (''Module '' @ quoted rootPkg
                                                @ '' not found. Run: bun add '' @ rootPkg))
                            in Inr (Some (new_issue relativeFilePath ln ip
                                        (''Unknown alias '' @ quoted fullAlias @ '' or '' @ quoted aliasRoot)
                                        (js_or sugg
                                           (Some ''Verify alias in tsconfig.json or use relative path''))),
                                None))
                         else
                           (let expectedPath = expected_path cfg fullAlias aliasRoot
                            in case (resolvedPath, expectedPath) of
                                 (Some rp, Some ep) \<Rightarrow>
                                   if rp \<noteq> [] \<and> ep \<noteq> [] \<and> \<not> js_startsWith rp ep then
                                     (let suggestedAlias = findMatchingAlias cfg (Some rp)
                                      in case (case suggestedAlias of
                                                 None \<Rightarrow> Inr None
                                               | Some a \<Rightarrow> convertToAliasPath cfg w (Some rp) a) of
                                           Inl e \<Rightarrow> Inl e
                                         | Inr relativeImportPath \<Rightarrow>
                                     (let i = new_issue relativeFilePath ln ip
                                                (''Alias '' @ quoted ip @ '' resolves incorrectly'')
                                                (if truthy relativeImportPath
                                                 then Some (''Change to: import ... from ''
                                                            @ quoted (tpl_null relativeImportPath))
                                                 else js_or suggestionFromCommunity
                                                        (Some (''Verify path for '' @ quoted ip)))
                                      in if autoFix \<and> truthy relativeImportPath \<and> \<not> dryRun
                                         then Inr (Some (i\<lparr>fixed := True\<rparr>), relativeImportPath)
                                         else Inr (Some i, None)))
                                   else Inr (None, None)
                               | _ \<Rightarrow> Inr (None, None)))
                   else Inr (None, None))))"

subsection \<open>A commented import in \<open>scanAndReport\<close>\<close>

text \<open>
  The body of the loop over \<open>findCommentedImports(file)\<close> in \<open>monocheck.ts\<close>, for one
  captured comment \<open>t\<close> at line \<open>ln\<close>. Every path that returns pushes an issue; the
  second component is the text written to \<open>lines[line - 1]\<close> when the occurrence is
  fixed. The specifier of a comment need not begin with a dot or an at sign, so here
  \<open>resolveImportPath\<close> can meet an inherited property and throw.
\<close>

definition commented_root :: "string \<Rightarrow> string" where
  "commented_root ip =
     (if js_startsWith (first_segment ip) ''@'' then two_segments ip else first_segment ip)"

definition scanAndReport_commented ::
  "Config \<Rightarrow> World \<Rightarrow> CommunitySolution list \<Rightarrow> DirectoryConfig \<Rightarrow> bool \<Rightarrow> bool
   \<Rightarrow> string \<Rightarrow> string \<Rightarrow> nat \<Rightarrow> error + (ImportIssue \<times> string option)" where
  "scanAndReport_commented cfg w sols dir autoFix dryRun filePath t ln =
     (let relativeFilePath = path_relative (cwd w) (cwd w) filePath
      in case import_match t of
           None \<Rightarrow>
             Inr ((new_issue relativeFilePath ln t ''Invalid commented import syntax''
                 (Some ''Manually review and fix'')) \<lparr>commented := True\<rparr>,
              None)
         | Some ip \<Rightarrow>
             (case resolveImportPath cfg w filePath ip of
                Inl e \<Rightarrow> Inl e
              | Inr resolvedPath \<Rightarrow>
             (let suggestionFromCommunity = community_suggestion True sols ip
              in case find_special cfg ip of
                   Some (key, special) \<Rightarrow>
                     (let newImportPath = special_new_path ip key special;
                          sugg =
                            (case sc_action special of
                               Rename \<Rightarrow>
                                 js_or suggestionFromCommunity
                                   (Some (''Uncomment and rename to: ''
                                          @ js_replace (uncomment t) ip (tpl_undefined newImportPath)))
                             | ReplaceMethod \<Rightarrow>
                                 js_or suggestionFromCommunity
                                   (Some (''Uncomment and replace with: import { useUser } from ''
                                          @ quoted (tpl_undefined newImportPath)
                                          @ '' (adjust usage accordingly)''))
                             | Exclude \<Rightarrow> Some ''Excluded from checks'');
                          i = (new_issue relativeFilePath ln ip
                                 (''Commented special case: '' @ action_text (sc_action special)) sugg)
                              \<lparr>commented := True\<rparr>
                      in if autoFix \<and> truthy newImportPath \<and> sc_action special \<noteq> Exclude \<and> \<not> dryRun
                         then Inr (i\<lparr>fixed := True\<rparr>,
                               Some (js_replace (uncomment t) ip (tpl_undefined newImportPath)))
                         else Inr (i, None))
                 | None \<Rightarrow>
                     if \<not> truthy resolvedPath then
                       (let rootPkg = commented_root ip
                        in Inr ((new_issue relativeFilePath ln ip
                               (''Commented import '' @ quoted ip @ '' cannot be resolved'')
                               (js_or suggestionFromCommunity
                                  (Some (if isSpecialCaseRoot cfg rootPkg \<or> has_dependency dir rootPkg
                                         then ''Uncomment to use''
                                         else ''Module '' @ quoted rootPkg
                                              @ '' not found. Run: bun add '' @ rootPkg))))
                            \<lparr>commented := True\<rparr>,
                            None))
                     else
                       (let suggestedAlias = findMatchingAlias cfg resolvedPath
                        in case (case suggestedAlias of
                                   None \<Rightarrow> Inr (Some ip)
                                 | Some a \<Rightarrow> convertToAliasPath cfg w resolvedPath a) of
                             Inl e \<Rightarrow> Inl e
                           | Inr newImportPath \<Rightarrow>
                       (let i = (new_issue relativeFilePath ln ip
                                   (case suggestedAlias of
                                      Some a \<Rightarrow> ''Commented import should use alias '' @ quoted a
                                    | None \<Rightarrow> ''Commented import has no matching alias'')
                                   (js_or suggestionFromCommunity
                                      (Some (''Uncomment and change to: ''
                                             @ js_replace (uncomment t) ip (tpl_null newImportPath)))))
                                \<lparr>commented := True\<rparr>
                        in if autoFix \<and> truthy newImportPath \<and> \<not> dryRun
                           then Inr (i\<lparr>fixed := True\<rparr>,
                                 Some (js_replace (uncomment t) ip (tpl_null newImportPath)))
                           else Inr (i, None))))))"

subsection \<open>An import declaration in \<open>repocheck\<close>\<close>

text \<open>
  The command-line generation of the same loop. There is no dry run; with
  \<open>--interactive\<close> every fix is first put to the user, whose answer is the function
  \<open>confirmFix\<close>. A community rule is looked up by equality with \<open>from\<close> only, and only
  inside the override branch.
\<close>

definition decide_fix ::
  "bool \<Rightarrow> (ImportIssue \<Rightarrow> bool) \<Rightarrow> ImportIssue \<Rightarrow> string option
   \<Rightarrow> ImportIssue option \<times> string option" where
  "decide_fix interactive confirmFix i new =
     (if interactive \<and> \<not> confirmFix i then (Some (i\<lparr>userChoice := Some ''Skipped''\<rparr>), None)
      else (Some (i\<lparr>fixed := True\<rparr>), new))"

definition repocheck_import ::
  "Config \<Rightarrow> World \<Rightarrow> CommunitySolution list \<Rightarrow> DirectoryConfig \<Rightarrow> bool \<Rightarrow> bool
   \<Rightarrow> (ImportIssue \<Rightarrow> bool) \<Rightarrow> string \<Rightarrow> string \<Rightarrow> nat
   \<Rightarrow> error + (ImportIssue option \<times> string option)" where
  "repocheck_import cfg w sols dir autoFix interactiveFlag confirmFix filePath ip ln =
     (let interactive = (autoFix \<and> interactiveFlag);
          relativeFilePath = path_relative (cwd w) (cwd w) filePath
      in if skipped_import cfg w dir ip then Inr (None, None)
         else
           (case resolveImportPath cfg w filePath ip of
              Inl e \<Rightarrow> Inl e
            | Inr resolvedPath \<Rightarrow>
              (case find_special cfg ip of
                 Some (key, special) \<Rightarrow>
                   (let communityMatch = find (\<lambda>sol. cs_from sol = ip) sols;
                        newImportPath = special_new_path ip key special;
                        sugg =
                          (case sc_action special of
                             Rename \<Rightarrow>
                               Some (''Rename to: import ... from ''
                                     @ quoted (tpl_undefined newImportPath))
                           | ReplaceMethod \<Rightarrow>
                               js_or (map_option cs_description communityMatch)
                                 (Some (''Replace with: import { useUser } from ''
                                        @ quoted (tpl_undefined newImportPath)
                                        @ '' (adjust usage accordingly)''))
                           | Exclude \<Rightarrow> Some ''Excluded from checks'');
                        i = new_issue relativeFilePath ln ip
                              (''Special case: '' @ action_text (sc_action special)) sugg
                    in if autoFix \<and> truthy newImportPath \<and> sc_action special \<noteq> Exclude
                       then Inr (decide_fix interactive confirmFix i newImportPath)
                       else Inr (Some i, None))
               | None \<Rightarrow>
                   if js_startsWith ip ''.'' then
                     (case findMatchingAlias cfg resolvedPath of
                        Some suggestedAlias \<Rightarrow>
                          (case convertToAliasPath cfg w resolvedPath suggestedAlias of
                             Inl e \<Rightarrow> Inl e
                           | Inr relativeImportPath \<Rightarrow>
                          (let i = new_issue relativeFilePath ln ip
                                     (''Relative import should use alias '' @ quoted suggestedAlias)
                                     (Some (''Change to: import ... from ''
                                            @ quoted (tpl_null relativeImportPath)))
                           in if autoFix \<and> truthy relativeImportPath
                              then Inr (decide_fix interactive confirmFix i relativeImportPath)
                              else Inr (Some i, None)))
                      | None \<Rightarrow>
                          if \<not> truthy resolvedPath then
                            Inr (Some (new_issue relativeFilePath ln ip
                                     (''Relative import '' @ quoted ip @ '' cannot be resolved'')
                                     (Some (''File not found at ''
                                            @ path_resolve (cwd w) [path_dirname filePath, ip]))),
                             None)
                          else Inr (None, None))
                   else if js_startsWith ip ''@'' then
                     (let aliasRoot = first_segment ip;
                          fullAlias = full_alias ip
                      in if js_get (aliases cfg) fullAlias = Absent \<and> js_get (aliases cfg) aliasRoot = Absent
                         then
                           (let rootPkg = aliasRoot;
                                sugg =
                                  (if isSpecialCaseRoot cfg rootPkg \<or> has_dependency dir rootPkg
                                   then None
                                   else Some (''Module '' @ quoted rootPkg
                                              @ '' not found. Run: bun add '' @ rootPkg))
                            in Inr (Some (new_issue relativeFilePath ln ip
                                        (''Unknown alias '' @ quoted fullAlias @ '' or '' @ quoted aliasRoot)
                                        (js_or sugg
                                           (Some ''Verify alias in tsconfig.json or use relative path''))),
                                None))
                         else
                           (let expectedPath = expected_path cfg fullAlias aliasRoot
                            in case (resolvedPath, expectedPath) of
                                 (Some rp, Some ep) \<Rightarrow>
                                   if rp \<noteq> [] \<and> ep \<noteq> [] \<and> \<not> js_startsWith rp ep then
                                     (let suggestedAlias = findMatchingAlias cfg (Some rp)
                                      in case (case suggestedAlias of
                                                 None \<Rightarrow> Inr None
                                               | Some a \<Rightarrow> convertToAliasPath cfg w (Some rp) a) of
                                           Inl e \<Rightarrow> Inl e
                                         | Inr relativeImportPath \<Rightarrow>
                                     (let i = new_issue relativeFilePath ln ip
                                                (''Alias '' @ quoted ip @ '' resolves incorrectly'')
                                                (if truthy relativeImportPath
                                                 then Some (''Change to: import ... from ''
                                                            @ quoted (tpl_null relativeImportPath))
                                                 else Some (''Verify path for '' @ quoted ip))
                                      in if autoFix \<and> truthy relativeImportPath
                                         then Inr (decide_fix interactive confirmFix i relativeImportPath)
                                         else Inr (Some i, None)))
                                   else Inr (None, None)
                               | _ \<Rightarrow> Inr (None, None)))
                   else Inr (None, None))))"

subsection \<open>A commented import in \<open>repocheck\<close>\<close>

definition repocheck_commented ::
  "Config \<Rightarrow> World \<Rightarrow> CommunitySolution list \<Rightarrow> DirectoryConfig \<Rightarrow> bool \<Rightarrow> bool
   \<Rightarrow> (ImportIssue \<Rightarrow> bool) \<Rightarrow> string \<Rightarrow> string \<Rightarrow> nat
   \<Rightarrow> error + (ImportIssue \<times> string option)" where
  "repocheck_commented cfg w sols dir autoFix interactiveFlag confirmFix filePath t ln =
     (let interactive = (autoFix \<and> interactiveFlag);
          relativeFilePath = path_relative (cwd w) (cwd w) filePath
      in case import_match t of
           None \<Rightarrow>
             Inr ((new_issue relativeFilePath ln t ''Invalid commented import syntax''
                 (Some ''Manually review and fix'')) \<lparr>commented := True\<rparr>,
              None)
         | Some ip \<Rightarrow>
             (case resolveImportPath cfg w filePath ip of
                Inl e \<Rightarrow> Inl e
              | Inr resolvedPath \<Rightarrow>
                (case find_special cfg ip of
                   Some (key, special) \<Rightarrow>
                     (let communityMatch = find (\<lambda>sol. cs_from sol = ip) sols;
                          newImportPath = special_new_path ip key special;
                          sugg =
                            (case sc_action special of
                               Rename \<Rightarrow>
                                 Some (''Uncomment and rename to: ''
                                       @ js_replace (uncomment t) ip (tpl_undefined newImportPath))
                             | ReplaceMethod \<Rightarrow>
                                 js_or (map_option cs_description communityMatch)
                                   (Some (''Uncomment and replace with: import { useUser } from ''
                                          @ quoted (tpl_undefined newImportPath)
                                          @ '' (adjust usage accordingly)''))
                             | Exclude \<Rightarrow> Some ''Excluded from checks'');
                          i = (new_issue relativeFilePath ln ip
                                 (''Commented special case: '' @ action_text (sc_action special)) sugg)
                              \<lparr>commented := True\<rparr>
                      in if autoFix \<and> truthy newImportPath \<and> sc_action special \<noteq> Exclude
                            \<and> (if interactive then confirmFix i else True)
                         then Inr (i\<lparr>fixed := True\<rparr>,
                               Some (js_replace (uncomment t) ip (tpl_undefined newImportPath)))
                         else Inr (i, None))
                 | None \<Rightarrow>
                     if \<not> truthy resolvedPath then
                       (let rootPkg = commented_root ip
                        in Inr ((new_issue relativeFilePath ln ip
                               (''Commented import '' @ quoted ip @ '' cannot be resolved'')
                               (Some (if isSpecialCaseRoot cfg rootPkg \<or> has_dependency dir rootPkg
                                      then ''Uncomment to use''
                                      else ''Module '' @ quoted rootPkg
                                           @ '' not found. Run: bun add '' @ rootPkg)))
                            \<lparr>commented := True\<rparr>,
                            None))
                     else
                       (let suggestedAlias = findMatchingAlias cfg resolvedPath
                        in case (case suggestedAlias of
                                   None \<Rightarrow> Inr (Some ip)
                                 | Some a \<Rightarrow> convertToAliasPath cfg w resolvedPath a) of
                             Inl e \<Rightarrow> Inl e
                           | Inr newImportPath \<Rightarrow>
                       (let i = (new_issue relativeFilePath ln ip
                                   (case suggestedAlias of
                                      Some a \<Rightarrow> ''Commented import should use alias '' @ quoted a
                                    | None \<Rightarrow> ''Commented import has no matching alias'')
                                   (Some (''Uncomment and change to: ''
                                          @ js_replace (uncomment t) ip (tpl_null newImportPath))))
                                \<lparr>commented := True\<rparr>
                        in if autoFix \<and> truthy newImportPath
                              \<and> (if interactive then confirmFix i else True)
                           then Inr (i\<lparr>fixed := True\<rparr>,
                                 Some (js_replace (uncomment t) ip (tpl_null newImportPath)))
                           else Inr (i, None))))))"

section \<open>Retrieval of the community rules\<close>









section \<open>Alias tables as the setup writes them\<close>

text \<open>
  \<open>extractAliases\<close> stores \<open>resolve(baseDir, cleanPath)\<close> as the path of an alias, an
  absolute path in normal form, under the key of the \<open>paths\<close> entry without its
  \<open>/*\<close>. The predicate below describes such a table for an absolute working
  directory: every alias path is absolute and is left unchanged by \<open>resolve\<close>, and
  no alias name begins with a dot or has an empty or \<open>..\<close> segment.
\<close>

definition clean_aliases :: "Config \<Rightarrow> World \<Rightarrow> bool" where
  "clean_aliases cfg w \<longleftrightarrow>
     js_startsWith (cwd w) ''/''
     \<and> list_all (\<lambda>(k, kc).
           js_startsWith (alias_path kc) ''/''
           \<and> path_resolve (cwd w) [alias_path kc] = alias_path kc
           \<and> \<not> js_startsWith k ''.''
           \<and> [] \<notin> set (js_split CHR ''/'' k)
           \<and> ''..'' \<notin> set (js_split CHR ''/'' k))
         (aliases cfg)"

section \<open>A small project for the concrete cases\<close>

text \<open>
  A project rooted at \<open>/proj\<close> with one source file next to the scanned file
  \<open>/proj/src/x.ts\<close>; nothing is installed and no package resolves.
\<close>

definition example_dir :: DirectoryConfig where
  "example_dir = \<lparr> dir_path = ''/proj/src'', dir_tsconfig = ''/proj/tsconfig.json'',
                   dir_report = ''/proj/import-check-report.json'', dir_dependencies = None \<rparr>"

definition example_world :: World where
  "example_world = \<lparr> cwd = ''/proj'', existsSync = (\<lambda>p. p \<in> set [''/proj/src/a/b.ts'']),
                     require_resolve = (\<lambda>p. None) \<rparr>"

definition no_rules :: Config where
  "no_rules = \<lparr> directories = [example_dir], aliases = [], specialCases = [] \<rparr>"

definition exclude_rule :: Config where
  "exclude_rule =
     \<lparr> directories = [example_dir], aliases = [],
       specialCases = [(''@legacy/core'', \<lparr> sc_action = Exclude, sc_value = None, sc_prefixOnly = False \<rparr>)] \<rparr>"

definition exclude_constructor :: Config where
  "exclude_constructor =
     \<lparr> directories = [example_dir], aliases = [],
       specialCases = [(''constructor'', \<lparr> sc_action = Exclude, sc_value = None, sc_prefixOnly = False \<rparr>)] \<rparr>"

definition rename_exact :: Config where
  "rename_exact =
     \<lparr> directories = [example_dir], aliases = [],
       specialCases = [(''@old/lib'', \<lparr> sc_action = Rename, sc_value = Some ''@new/lib'', sc_prefixOnly = False \<rparr>)] \<rparr>"

definition community_rules :: "CommunitySolution list" where
  "community_rules =
     [\<lparr> cs_from = ''@old/lib'', cs_to = ''@community/lib'', cs_action = Rename,
        cs_description = ''Use the community fork'', cs_prefixOnly = False \<rparr>]"





definition dollar_rule :: Config where
  "dollar_rule =
     \<lparr> directories = [example_dir], aliases = [],
       specialCases = [(''@old'', \<lparr> sc_action = Rename, sc_value = Some ''@new$$'', sc_prefixOnly = True \<rparr>)] \<rparr>"

definition two_aliases :: Config where
  "two_aliases =
     \<lparr> directories = [example_dir],
       aliases = [(''@app'', \<lparr> alias_path = ''/proj/src'', alias_description = ''Auto-detected'' \<rparr>),
                  (''@ui'', \<lparr> alias_path = ''/proj/src/components'', alias_description = ''Auto-detected'' \<rparr>)],
       specialCases = [] \<rparr>"

definition ui_world :: World where
  "ui_world = \<lparr> cwd = ''/proj'', existsSync = (\<lambda>p. p \<in> set [''/proj/src/components/Button.tsx'']),
                require_resolve = (\<lambda>p. None) \<rparr>"

definition self_matching_rule :: Config where
  "self_matching_rule =
     \<lparr> directories = [example_dir], aliases = [],
       specialCases = [(''@old'', \<lparr> sc_action = Rename, sc_value = Some ''@old/v2'', sc_prefixOnly = True \<rparr>)] \<rparr>"

section \<open>Report counts\<close>

text \<open>
  C10. In the report of a directory the counts partition: \<open>totalIssues\<close> is the sum of
  \<open>standardIssues\<close> and \<open>commentedIssues\<close>, it is the length of the \<open>issues\<close> list, and
  \<open>fixedIssues\<close> never exceeds it. This holds for every issue list, hence for the one a
  scan pass has collected.
\<close>

theorem report_counts_partition:
  "totalIssues (make_report n iss) =
     standardIssues (make_report n iss) + commentedIssues (make_report n iss)
   \<and> totalIssues (make_report n iss) = length (issues (make_report n iss))
   \<and> fixedIssues (make_report n iss) \<le> totalIssues (make_report n iss)"
proof -
  have "length (filter (\<lambda>i. \<not> commented i) iss) + length (filter (\<lambda>i. commented i) iss)
        = length iss"
    using sum_length_filter_compl [of "\<lambda>i. \<not> commented i" iss] by simp
  then show ?thesis
    by (simp add: make_report_def)
qed

section \<open>The line-level scan\<close>

text \<open>
  \<open>s.includes(p)\<close> means that \<open>p\<close> occurs in \<open>s\<close>; trimming a line neither adds nor
  removes an occurrence of a word that has no white space at its ends.
\<close>

lemma js_includes_iff: "js_includes s p \<longleftrightarrow> (\<exists>a b. s = a @ p @ b)"
proof (induction s)
  case Nil
  then show ?case by auto
next
  case (Cons c cs)
  show ?case
  proof
    assume "js_includes (c # cs) p"
    then consider "prefix p (c # cs)" | "js_includes cs p" by auto
    then show "\<exists>a b. c # cs = a @ p @ b"
    proof cases
      case 1
      then obtain b where "c # cs = p @ b" by (auto simp: prefix_def)
      then have "c # cs = [] @ p @ b" by simp
      then show ?thesis by blast
    next
      case 2
      with Cons.IH obtain a b where "cs = a @ p @ b" by blast
      then have "c # cs = (c # a) @ p @ b" by simp
      then show ?thesis by blast
    qed
  next
    assume "\<exists>a b. c # cs = a @ p @ b"
    then obtain a b where ab: "c # cs = a @ p @ b" by blast
    show "js_includes (c # cs) p"
    proof (cases a)
      case Nil
      with ab have "prefix p (c # cs)" by (simp add: prefix_def)
      then show ?thesis by simp
    next
      case (Cons x a')
      with ab have "cs = a' @ p @ b" by simp
      with Cons.IH show ?thesis by auto
    qed
  qed
qed

lemma js_includes_rev: "js_includes (rev s) (rev p) \<longleftrightarrow> js_includes s p"
proof -
  have "(\<exists>a b. rev s = a @ rev p @ b) \<longleftrightarrow> (\<exists>a b. s = a @ p @ b)"
  proof
    assume "\<exists>a b. rev s = a @ rev p @ b"
    then obtain a b where "rev s = a @ rev p @ b" by blast
    then have "rev (rev s) = rev (a @ rev p @ b)" by simp
    then have "s = rev b @ p @ rev a" by simp
    then show "\<exists>a b. s = a @ p @ b" by blast
  next
    assume "\<exists>a b. s = a @ p @ b"
    then obtain a b where "s = a @ p @ b" by blast
    then have "rev s = rev b @ rev p @ rev a" by simp
    then show "\<exists>a b. rev s = a @ rev p @ b" by blast
  qed
  then show ?thesis by (simp add: js_includes_iff)
qed

lemma js_includes_dropWhile:
  assumes "p \<noteq> []" and "\<not> P (hd p)"
  shows "js_includes (dropWhile P s) p \<longleftrightarrow> js_includes s p"
proof (induction s)
  case Nil
  show ?case by simp
next
  case (Cons c cs)
  show ?case
  proof (cases "P c")
    case True
    have "\<not> prefix p (c # cs)"
    proof
      assume "prefix p (c # cs)"
      with assms(1) have "hd p = c" by (cases p) auto
      with True assms(2) show False by simp
    qed
    with True Cons.IH show ?thesis by simp
  next
    case False
    then show ?thesis by simp
  qed
qed

lemma js_includes_trim:
  assumes "p \<noteq> []" and "\<not> is_space (hd p)" and "\<not> is_space (last p)"
  shows "js_includes (js_trim s) p \<longleftrightarrow> js_includes s p"
proof -
  have rp: "rev p \<noteq> []" "\<not> is_space (hd (rev p))"
    using assms by (simp_all add: hd_rev)
  have "js_includes (js_trim s) p
        \<longleftrightarrow> js_includes (dropWhile is_space (rev (dropWhile is_space s))) (rev p)"
    unfolding js_trim_def using js_includes_rev [of "dropWhile is_space (rev (dropWhile is_space s))" "rev p"]
    by simp
  also have "\<dots> \<longleftrightarrow> js_includes (rev (dropWhile is_space s)) (rev p)"
    using rp by (rule js_includes_dropWhile [where P = is_space])
  also have "\<dots> \<longleftrightarrow> js_includes (dropWhile is_space s) p"
    by (rule js_includes_rev)
  also have "\<dots> \<longleftrightarrow> js_includes s p"
    using assms(1,2) by (rule js_includes_dropWhile [where P = is_space])
  finally show ?thesis .
qed

lemma scan_line_line: "e \<in> set (scan_line l k) \<Longrightarrow> ci_line e = Suc k"
  by (auto simp: scan_line_def Let_def split: if_splits)

lemma scan_lines_line: "e \<in> set (scan_lines k ls) \<Longrightarrow> k < ci_line e \<and> ci_line e \<le> k + length ls"
proof (induction ls arbitrary: k)
  case Nil
  then show ?case by simp
next
  case (Cons l ls)
  from Cons.prems consider "e \<in> set (scan_line l k)" | "e \<in> set (scan_lines (Suc k) ls)"
    by auto
  then show ?case
  proof cases
    case 1
    then show ?thesis using scan_line_line by fastforce
  next
    case 2
    from Cons.IH [OF 2] show ?thesis by simp
  qed
qed

lemma scan_lines_filter:
  "filter (\<lambda>e. ci_line e = Suc (k + i)) (scan_lines k ls)
   = (if i < length ls then scan_line (ls ! i) (k + i) else [])"
proof (induction ls arbitrary: k i)
  case Nil
  show ?case by simp
next
  case (Cons l ls)
  show ?case
  proof (cases i)
    case 0
    have a: "filter (\<lambda>e. ci_line e = Suc k) (scan_line l k) = scan_line l k"
      by (rule filter_True) (simp add: scan_line_line)
    have b: "filter (\<lambda>e. ci_line e = Suc k) (scan_lines (Suc k) ls) = []"
      by (rule filter_False) (use scan_lines_line in fastforce)
    from 0 a b show ?thesis by simp
  next
    case (Suc j)
    have a: "filter (\<lambda>e. ci_line e = Suc (k + i)) (scan_line l k) = []"
      by (rule filter_False) (use Suc scan_line_line in fastforce)
    from Cons.IH [of "Suc k" j] Suc a show ?thesis by simp
  qed
qed

lemma scan_line_type: "e \<in> set (scan_line l k) \<Longrightarrow> ci_commentType e \<noteq> ''multi-line''"
  by (auto simp: scan_line_def Let_def split: if_splits)

lemma scan_lines_type: "e \<in> set (scan_lines k ls) \<Longrightarrow> ci_commentType e \<noteq> ''multi-line''"
proof (induction ls arbitrary: k)
  case Nil
  then show ?case by simp
next
  case (Cons l ls)
  from Cons.prems consider "e \<in> set (scan_line l k)" | "e \<in> set (scan_lines (Suc k) ls)"
    by auto
  then show ?case
  proof cases
    case 1
    then show ?thesis by (rule scan_line_type)
  next
    case 2
    then show ?thesis by (rule Cons.IH)
  qed
qed

lemma scan_block_type: "e \<in> set (scan_block f c) \<Longrightarrow> ci_commentType e = ''multi-line''"
proof -
  obtain a b where c: "c = (a, b)" by (cases c)
  assume "e \<in> set (scan_block f c)"
  then have "e \<in> set (case find (\<lambda>l. js_startsWith l ''import'') (f a) of
                          None \<Rightarrow> []
                        | Some importLine \<Rightarrow>
                            [\<lparr> ci_text = importLine, ci_line = b, ci_commentType = ''multi-line'' \<rparr>])"
    unfolding c scan_block_def prod.case by (simp only: split: if_splits) simp
  then show ?thesis
    by (cases "find (\<lambda>l. js_startsWith l ''import'') (f a)") simp_all
qed

text \<open>
  The entries of the line-level scan are those of the result that are not marked
  \<open>multi-line\<close>, whatever the block comments are.
\<close>

lemma line_entries:
  "filter (\<lambda>e. ci_commentType e \<noteq> ''multi-line'' \<and> ci_line e = n)
     (commented_lines fullText @ concat (map (scan_block f) comments))
   = filter (\<lambda>e. ci_line e = n) (commented_lines fullText)"
proof -
  have a: "filter (\<lambda>e. ci_commentType e \<noteq> ''multi-line'' \<and> ci_line e = n) (commented_lines fullText)
           = filter (\<lambda>e. ci_line e = n) (commented_lines fullText)"
    by (rule filter_cong) (auto simp: commented_lines_def dest: scan_lines_type)
  have b: "filter (\<lambda>e. ci_commentType e \<noteq> ''multi-line'' \<and> ci_line e = n)
             (concat (map (scan_block f) comments)) = []"
    by (rule filter_False) (auto dest: scan_block_type)
  from a b show ?thesis by simp
qed

lemma line_scan:
  assumes "i < length (js_split CHR 0x0A fullText)"
  shows "filter (\<lambda>e. ci_line e = i + 1) (commented_lines fullText) =
           (let l = js_split CHR 0x0A fullText ! i; t = js_trim l
            in if (js_startsWith t ''//'' \<or> js_startsWith t ''#'')
                  \<and> js_includes l ''import'' \<and> js_includes l ''from''
               then [\<lparr> ci_text = t, ci_line = i + 1,
                       ci_commentType = (if js_startsWith t ''//'' then ''single-line'' else ''hash'') \<rparr>]
               else [])"
proof -
  have imp: "js_includes (js_trim l) ''import'' \<longleftrightarrow> js_includes l ''import''" for l
    by (rule js_includes_trim) (simp_all add: is_space_def)
  have frm: "js_includes (js_trim l) ''from'' \<longleftrightarrow> js_includes l ''from''" for l
    by (rule js_includes_trim) (simp_all add: is_space_def)
  from assms scan_lines_filter [of 0 i "js_split CHR 0x0A fullText"]
  show ?thesis
    by (simp add: commented_lines_def scan_line_def Let_def imp frm)
qed

text \<open>
  C8. Of the entries that \<open>findCommentedImports\<close> returns, those of the line-level scan
  are the ones not marked \<open>multi-line\<close>. For line \<open>i + 1\<close> of the file there is such an
  entry exactly when the trimmed line begins with \<open>//\<close> or \<open>#\<close> and the line contains
  both \<open>import\<close> and \<open>from\<close>; it is then the only one, and it holds the trimmed line, its
  number and the comment type. A line that fails one of the conditions yields no
  such entry. This holds for the function of \<open>helpers.ts\<close> and for the one of
  \<open>monocheck.ts\<close> and \<open>repocheck\<close>, whatever block comments the file has.
\<close>

theorem line_scan_captures_exactly:
  assumes "i < length (js_split CHR 0x0A fullText)"
  shows "filter (\<lambda>e. ci_commentType e \<noteq> ''multi-line'' \<and> ci_line e = i + 1)
           (findCommentedImports_helpers fullText comments) =
           (let l = js_split CHR 0x0A fullText ! i; t = js_trim l
            in if (js_startsWith t ''//'' \<or> js_startsWith t ''#'')
                  \<and> js_includes l ''import'' \<and> js_includes l ''from''
               then [\<lparr> ci_text = t, ci_line = i + 1,
                       ci_commentType = (if js_startsWith t ''//'' then ''single-line'' else ''hash'') \<rparr>]
               else [])
         \<and> filter (\<lambda>e. ci_commentType e \<noteq> ''multi-line'' \<and> ci_line e = i + 1)
             (findCommentedImports fullText comments) =
           (let l = js_split CHR 0x0A fullText ! i; t = js_trim l
            in if (js_startsWith t ''//'' \<or> js_startsWith t ''#'')
                  \<and> js_includes l ''import'' \<and> js_includes l ''from''
               then [\<lparr> ci_text = t, ci_line = i + 1,
                       ci_commentType = (if js_startsWith t ''//'' then ''single-line'' else ''hash'') \<rparr>]
               else [])"
  unfolding findCommentedImports_helpers_def findCommentedImports_def line_entries
  using line_scan [OF assms] by simp

theorem line_scan_captures_exactly_witness:
  "1 < length (js_split CHR 0x0A (''x = 1'' @ [CHR 0x0A] @ ''  // import { x } from './y';''))
   \<and> filter (\<lambda>e. ci_commentType e \<noteq> ''multi-line'' \<and> ci_line e = 1 + 1)
        (findCommentedImports_helpers (''x = 1'' @ [CHR 0x0A] @ ''  // import { x } from './y';'')
           [(''/* import { z } from 'w' */'', 2)])
     = [\<lparr> ci_text = ''// import { x } from './y';'', ci_line = 2, ci_commentType = ''single-line'' \<rparr>]
   \<and> filter (\<lambda>e. ci_commentType e \<noteq> ''multi-line'' \<and> ci_line e = 1 + 1)
        (findCommentedImports (''x = 1'' @ [CHR 0x0A] @ ''  // import { x } from './y';'')
           [(''/* import { z } from 'w' */'', 2)])
     = [\<lparr> ci_text = ''// import { x } from './y';'', ci_line = 2, ci_commentType = ''single-line'' \<rparr>]"
proof -
  have h: "1 < length (js_split CHR 0x0A (''x = 1'' @ [CHR 0x0A] @ ''  // import { x } from './y';''))"
    by simp
  have t: "js_trim ''  // import { x } from './y';'' = ''// import { x } from './y';''"
    by (simp add: js_trim_def is_space_def)
  have l: "js_split CHR 0x0A (''x = 1'' @ [CHR 0x0A] @ ''  // import { x } from './y';'') ! 1
           = ''  // import { x } from './y';''"
    by simp
  show ?thesis
    using h line_scan_captures_exactly [OF h, of "[(''/* import { z } from 'w' */'', 2)]"]
    by (simp only: l Let_def t) (simp add: js_startsWith_def)
qed

section \<open>Keys that are not inherited\<close>

text \<open>
  No property of \<open>Object.prototype\<close> begins with a dot or an at sign, and the first
  segment of a specifier begins as the specifier does. For the specifier of an
  import declaration that the scan does not skip, a read of the alias table or of
  the dependencies therefore finds an own property or nothing, and
  \<open>resolveImportPath\<close> does not throw.
\<close>

lemma js_split_head: "c \<noteq> d \<Longrightarrow> \<exists>r rs. js_split d (c # s) = (c # r) # rs"
  by (cases "js_split d s") simp_all

lemma first_segment_head: "c \<noteq> CHR ''/'' \<Longrightarrow> \<exists>r. first_segment (c # s) = c # r"
proof -
  assume "c \<noteq> CHR ''/''"
  then obtain r rs where "js_split CHR ''/'' (c # s) = (c # r) # rs"
    using js_split_head by blast
  then show ?thesis by (simp add: first_segment_def)
qed

lemma two_segments_head: "c \<noteq> CHR ''/'' \<Longrightarrow> \<exists>r. two_segments (c # s) = c # r"
proof -
  assume "c \<noteq> CHR ''/''"
  then obtain r rs where s: "js_split CHR ''/'' (c # s) = (c # r) # rs"
    using js_split_head by blast
  show ?thesis
  proof (cases rs)
    case Nil
    with s show ?thesis by (simp add: two_segments_def)
  next
    case (Cons x xs)
    with s show ?thesis by (simp add: two_segments_def)
  qed
qed

lemma full_alias_head: "c \<noteq> CHR ''/'' \<Longrightarrow> \<exists>r. full_alias (c # s) = c # r"
  using first_segment_head [of c s] two_segments_head [of c s] by (simp add: full_alias_def)

lemma own_key:
  assumes "c = CHR ''.'' \<or> c = CHR ''@''"
  shows "c # r \<notin> set object_prototype_keys"
  using assms by (auto simp: object_prototype_keys_def)

lemma js_get_own_key:
  assumes "c = CHR ''.'' \<or> c = CHR ''@''"
  shows "js_get obj (c # r) = (case map_of obj (c # r) of Some v \<Rightarrow> Own v | None \<Rightarrow> Absent)"
  using own_key [OF assms, of r] by (simp add: js_get_def split: option.splits)

lemma specifier_start:
  assumes "js_startsWith ip ''.'' \<or> js_startsWith ip ''@''"
  obtains c s where "ip = c # s" and "c = CHR ''.'' \<or> c = CHR ''@''"
  using assms by (cases ip) (auto simp: js_startsWith_def)

lemma js_get_first_segment:
  assumes "js_startsWith ip ''.'' \<or> js_startsWith ip ''@''"
  shows "js_get obj (first_segment ip)
         = (case map_of obj (first_segment ip) of Some v \<Rightarrow> Own v | None \<Rightarrow> Absent)"
proof -
  from assms obtain c s where ip: "ip = c # s" and c: "c = CHR ''.'' \<or> c = CHR ''@''"
    by (rule specifier_start)
  from c have "c \<noteq> CHR ''/''" by auto
  then obtain r where "first_segment (c # s) = c # r" using first_segment_head by blast
  with ip js_get_own_key [OF c, of obj r] show ?thesis by simp
qed

lemma js_get_full_alias:
  assumes "js_startsWith ip ''.'' \<or> js_startsWith ip ''@''"
  shows "js_get obj (full_alias ip)
         = (case map_of obj (full_alias ip) of Some v \<Rightarrow> Own v | None \<Rightarrow> Absent)"
proof -
  from assms obtain c s where ip: "ip = c # s" and c: "c = CHR ''.'' \<or> c = CHR ''@''"
    by (rule specifier_start)
  from c have "c \<noteq> CHR ''/''" by auto
  then obtain r where "full_alias (c # s) = c # r" using full_alias_head by blast
  with ip js_get_own_key [OF c, of obj r] show ?thesis by simp
qed

lemma js_get_Absent:
  assumes "js_startsWith ip ''.'' \<or> js_startsWith ip ''@''"
  shows "js_get obj (first_segment ip) = Absent \<longleftrightarrow> map_of obj (first_segment ip) = None"
    and "js_get obj (full_alias ip) = Absent \<longleftrightarrow> map_of obj (full_alias ip) = None"
  by (simp_all add: js_get_first_segment [OF assms] js_get_full_alias [OF assms] split: option.splits)

lemma has_dependency_own:
  assumes "js_startsWith ip ''.'' \<or> js_startsWith ip ''@''"
  shows "has_dependency dir (first_segment ip)
         = (case dir_dependencies dir of
              None \<Rightarrow> False
            | Some deps \<Rightarrow> truthy (map_of deps (first_segment ip)))"
  by (simp add: has_dependency_def js_get_first_segment [OF assms] split: option.splits)

lemma expected_path_own:
  assumes "js_startsWith ip ''.'' \<or> js_startsWith ip ''@''"
  shows "expected_path cfg (full_alias ip) (first_segment ip)
         = js_or (map_option alias_path (map_of (aliases cfg) (full_alias ip)))
                 (map_option alias_path (map_of (aliases cfg) (first_segment ip)))"
  by (simp add: expected_path_def optional_path_def js_get_first_segment [OF assms]
      js_get_full_alias [OF assms] split: option.splits)

text \<open>What \<open>resolveImportPath\<close> returns for such a specifier.\<close>

lemma resolveImportPath_own:
  assumes "js_startsWith ip ''.'' \<or> js_startsWith ip ''@''"
  shows "resolveImportPath cfg w filePath ip =
           Inr (if js_startsWith ip ''.''
                then exists_source w (path_resolve (cwd w) [path_dirname filePath, ip])
                else
                  (case map_of (aliases cfg) (full_alias ip) of
                     Some ac \<Rightarrow>
                       exists_source w
                         (path_resolve (cwd w)
                            [alias_path ac, js_replace ip (full_alias ip @ ''/'') []])
                   | None \<Rightarrow>
                       (case map_of (aliases cfg) (first_segment ip) of
                          Some ac \<Rightarrow>
                            exists_source w
                              (path_resolve (cwd w)
                                 [alias_path ac, js_replace ip (first_segment ip @ ''/'') []])
                        | None \<Rightarrow> require_resolve w ip)))"
  by (simp add: resolveImportPath_def resolve_under_def Let_def js_get_first_segment [OF assms]
      js_get_full_alias [OF assms] split: option.splits)

lemma reached_start:
  "\<not> skipped_import cfg w dir ip \<Longrightarrow> js_startsWith ip ''.'' \<or> js_startsWith ip ''@''"
  by (auto simp: skipped_import_def)

lemma resolveImportPath_reached:
  assumes "\<not> skipped_import cfg w dir ip"
  obtains resolvedPath where "resolveImportPath cfg w filePath ip = Inr resolvedPath"
  using resolveImportPath_own [OF reached_start [OF assms]] by blast

text \<open>An own key of the alias table, such as a name that \<open>findMatchingAlias\<close> returns.\<close>

lemma js_get_Own: "map_of obj key = Some v \<Longrightarrow> js_get obj key = Own v"
  by (simp add: js_get_def)

lemma convertToAliasPath_own:
  assumes "map_of (aliases cfg) a = Some ac"
  shows "convertToAliasPath cfg w (Some rp) a =
           Inr (let relativePart =
                      map (\<lambda>c. if c = CHR 0x5C then CHR ''/'' else c)
                          (path_relative (cwd w) (alias_path ac) rp)
                in if js_startsWith relativePart ''..'' then None
                   else Some (a @ ''/'' @ relativePart))"
  by (simp add: convertToAliasPath_def js_get_Own [OF assms] Let_def)

section \<open>Evaluation in the concrete project\<close>

lemma example_cwd: "cwd example_world = ''/proj''"
  by (simp add: example_world_def)

lemma rel_example: "path_relative ''/proj'' ''/proj'' ''/proj/src/x.ts'' = ''src/x.ts''"
  by code_simp

section \<open>Commented imports that do not parse\<close>

text \<open>
  C6 (as amended). A captured comment that the import pattern does not match yields
  the issue \<open>Invalid commented import syntax\<close> with the fixed suggestion
  \<open>Manually review and fix\<close> (not \<open>null\<close>), marked as commented and never fixed;
  the result does not depend on the rules, the aliases or the file system, so rule
  matching, resolution and the alias checks are skipped.
\<close>

theorem malformed_commented_import:
  assumes "import_match t = None"
  shows "scanAndReport_commented cfg w sols dir autoFix dryRun filePath t ln =
           Inr (\<lparr> inFile = path_relative (cwd w) (cwd w) filePath, line = ln, importPath = t,
               issue = ''Invalid commented import syntax'',
               suggestion = Some ''Manually review and fix'',
               fixed = False, commented = True, userChoice = None \<rparr>, None)
         \<and> repocheck_commented cfg w sols dir autoFix interactiveFlag confirmFix filePath t ln =
           Inr (\<lparr> inFile = path_relative (cwd w) (cwd w) filePath, line = ln, importPath = t,
               issue = ''Invalid commented import syntax'',
               suggestion = Some ''Manually review and fix'',
               fixed = False, commented = True, userChoice = None \<rparr>, None)"
  using assms
  by (simp add: scanAndReport_commented_def repocheck_commented_def new_issue_def Let_def)

lemma no_match_prose: "import_match ''// import stuff from here'' = None"
  by code_simp

theorem malformed_commented_import_witness:
  "import_match ''// import stuff from here'' = None
   \<and> scanAndReport_commented no_rules example_world [] example_dir True False
        ''/proj/src/x.ts'' ''// import stuff from here'' 4 =
       Inr (\<lparr> inFile = ''src/x.ts'', line = 4, importPath = ''// import stuff from here'',
           issue = ''Invalid commented import syntax'',
           suggestion = Some ''Manually review and fix'',
           fixed = False, commented = True, userChoice = None \<rparr>, None)"
  using malformed_commented_import [OF no_match_prose, of no_rules example_world "[]" example_dir
      True False "''/proj/src/x.ts''" 4]
  by (simp add: no_match_prose example_cwd rel_example)

text \<open>The claim as stated asks for a \<open>null\<close> suggestion; the code gives a text.\<close>

theorem malformed_suggestion_not_null:
  "import_match ''// import stuff from here'' = None
   \<and> (\<exists>i. scanAndReport_commented no_rules example_world [] example_dir True False
              ''/proj/src/x.ts'' ''// import stuff from here'' 4 = Inr (i, None)
          \<and> suggestion i = Some ''Manually review and fix'' \<and> suggestion i \<noteq> None)"
  by (simp add: scanAndReport_commented_def no_match_prose new_issue_def Let_def)

section \<open>Exclude rules\<close>

text \<open>
  \<open>resolveImportPath\<close> is called before the rules are looked up. It throws only for a
  specifier that does not begin with a dot and whose first segment is the name of
  an inherited property, such as \<open>constructor\<close>.
\<close>

lemma js_split_nonempty: "js_split d s \<noteq> []"
  by (induction s) (auto split: list.splits)


lemma js_includes_char: "js_includes s [c] \<longleftrightarrow> c \<in> set s"
  by (induction s) auto





lemma exclude_rule_found:
  "find_special exclude_rule ''@legacy/core'' =
     Some (''@legacy/core'', \<lparr> sc_action = Exclude, sc_value = None, sc_prefixOnly = False \<rparr>)"
  by (simp add: find_special_def exclude_rule_def)

lemma exclude_rule_reached: "\<not> skipped_import exclude_rule example_world example_dir ''@legacy/core''"
  by (simp add: skipped_import_def exclude_rule_def example_world_def example_dir_def
      js_startsWith_def has_dependency_def first_segment_def path_resolve_def)

lemma exclude_rule_resolved:
  "resolveImportPath exclude_rule example_world ''/proj/src/x.ts'' ''@legacy/core'' = Inr None"
  by (simp add: resolveImportPath_own js_startsWith_def exclude_rule_def example_world_def)



text \<open>
  A commented import of \<open>constructor\<close> under an exclude rule for that name: the scan
  throws before it looks at the rule.
\<close>

lemma exclude_rule_not_reached:
  "import_match ''// import { a } from 'constructor';'' = Some ''constructor''
   \<and> find_special exclude_constructor ''constructor'' =
       Some (''constructor'', \<lparr> sc_action = Exclude, sc_value = None, sc_prefixOnly = False \<rparr>)
   \<and> scanAndReport_commented exclude_constructor example_world [] example_dir True False
        ''/proj/src/x.ts'' ''// import { a } from 'constructor';'' 7 = Inl TypeError
   \<and> repocheck_commented exclude_constructor example_world [] example_dir True False (\<lambda>i. True)
        ''/proj/src/x.ts'' ''// import { a } from 'constructor';'' 7 = Inl TypeError"
proof -
  have m: "import_match ''// import { a } from 'constructor';'' = Some ''constructor''"
    by code_simp
  have f: "find_special exclude_constructor ''constructor'' =
       Some (''constructor'', \<lparr> sc_action = Exclude, sc_value = None, sc_prefixOnly = False \<rparr>)"
    by (simp add: find_special_def exclude_constructor_def)
  have r: "resolveImportPath exclude_constructor example_world ''/proj/src/x.ts'' ''constructor''
           = Inl TypeError"
    by code_simp
  from m f r show ?thesis
    by (simp add: scanAndReport_commented_def repocheck_commented_def)
qed

text \<open>The sentinel of the claim is written in lower case; the code's is not.\<close>

lemma exclude_sentinel_capitalised:
  "\<exists>i. scanAndReport_import exclude_rule example_world [] example_dir True False
          ''/proj/src/x.ts'' ''@legacy/core'' 2 = Inr (Some i, None)
       \<and> suggestion i = Some ''Excluded from checks''
       \<and> suggestion i \<noteq> Some ''excluded from checks''"
  by (simp add: scanAndReport_import_def exclude_rule_found exclude_rule_reached
      exclude_rule_resolved new_issue_def special_new_path_def Let_def)


section \<open>Override rules and community rules\<close>

lemma community_suggestion_truthy:
  "community_suggestion c sols ip = Some s \<Longrightarrow> truthy (Some s)"
  by (auto simp: community_suggestion_def quoted_def split: option.splits if_splits)

lemma js_or_community:
  "js_or (community_suggestion c sols ip) x =
     (case community_suggestion c sols ip of Some t \<Rightarrow> Some t | None \<Rightarrow> x)"
proof (cases "community_suggestion c sols ip")
  case None
  then show ?thesis by (simp add: js_or_def)
next
  case (Some t)
  with community_suggestion_truthy [OF Some] show ?thesis by (simp add: js_or_def)
qed

lemma find_unique:
  assumes "x \<in> set xs" and "P x" and "\<And>y. y \<in> set xs \<Longrightarrow> P y \<Longrightarrow> y = x"
  shows "find P xs = Some x"
  using assms
proof (induction xs)
  case Nil
  then show ?case by simp
next
  case (Cons a xs)
  show ?case
  proof (cases "P a")
    case True
    have "a = x" by (rule Cons.prems(3)) (simp_all add: True)
    with True show ?thesis by simp
  next
    case False
    with Cons.prems(1,2) have xin: "x \<in> set xs" by auto
    have "find P xs = Some x"
      by (rule Cons.IH [OF xin Cons.prems(2)]) (rule Cons.prems(3), simp_all)
    with False show ?thesis by simp
  qed
qed

lemma find_special_exact:
  assumes "(ip, special) \<in> set (specialCases cfg)"
    and "distinct (map fst (specialCases cfg))"
    and "\<not> sc_prefixOnly special"
    and "\<forall>(k, s) \<in> set (specialCases cfg). sc_prefixOnly s \<longrightarrow> \<not> js_startsWith ip k"
  shows "find_special cfg ip = Some (ip, special)"
proof -
  let ?P = "\<lambda>(key, s). if sc_prefixOnly s then js_startsWith ip key else ip = key"
  have uniq: "y = (ip, special)" if yin: "y \<in> set (specialCases cfg)" and py: "?P y" for y
  proof -
    obtain k s where y: "y = (k, s)" by (cases y)
    from assms(4) yin y have "sc_prefixOnly s \<longrightarrow> \<not> js_startsWith ip k" by fastforce
    with py y have "\<not> sc_prefixOnly s" and "k = ip" by (simp_all split: if_splits)
    with y yin have "(ip, s) \<in> set (specialCases cfg)" by simp
    from eq_key_imp_eq_value [OF assms(2) this assms(1)] have "s = special" .
    with y \<open>k = ip\<close> show "y = (ip, special)" by simp
  qed
  have p: "?P (ip, special)" using assms(3) by simp
  show ?thesis
    unfolding find_special_def
  proof (rule find_unique)
    show "(ip, special) \<in> set (specialCases cfg)" by (rule assms(1))
    show "?P (ip, special)" by (rule p)
    show "y = (ip, special)" if "y \<in> set (specialCases cfg)" and "?P y" for y
      using that by (rule uniq)
  qed
qed


text \<open>
  C1 (as amended). When an import declaration is not skipped by the early guards
  and its override rule is found (in particular the rule whose key is the specifier
  itself, see \<open>find_special_exact\<close>), the issue is labelled with the action of the
  override rule and a fix writes the override rule's new path, whatever community
  rule matches. The suggestion text is the override rule's own only if no community
  text takes its place: in \<open>scanAndReport\<close> the suggestion of a matching community rule
  replaces it for \<open>rename\<close> and \<open>replace-method\<close>, in \<open>repocheck\<close> the description of the
  community rule with the same \<open>from\<close> replaces it for \<open>replace-method\<close>.
\<close>

theorem override_rule_decides_action:
  assumes "find_special cfg ip = Some (key, special)" and "\<not> skipped_import cfg w dir ip"
  shows "scanAndReport_import cfg w sols dir autoFix dryRun filePath ip ln =
           (let new = special_new_path ip key special;
                fix = (autoFix \<and> truthy new \<and> sc_action special \<noteq> Exclude \<and> \<not> dryRun)
            in Inr (Some \<lparr> inFile = path_relative (cwd w) (cwd w) filePath, line = ln, importPath = ip,
                       issue = ''Special case: '' @ action_text (sc_action special),
                       suggestion =
                         (case sc_action special of
                            Exclude \<Rightarrow> Some ''Excluded from checks''
                          | Rename \<Rightarrow>
                              (case community_suggestion False sols ip of
                                 Some c \<Rightarrow> Some c
                               | None \<Rightarrow> Some (''Rename to: import ... from '' @ quoted (tpl_undefined new)))
                          | ReplaceMethod \<Rightarrow>
                              (case community_suggestion False sols ip of
                                 Some c \<Rightarrow> Some c
                               | None \<Rightarrow> Some (''Replace with: import { useUser } from ''
                                               @ quoted (tpl_undefined new)
                                               @ '' (adjust usage accordingly)''))),
                       fixed = fix, commented = False, userChoice = None \<rparr>,
                if fix then new else None))
         \<and> (\<exists>i new. repocheck_import cfg w sols dir autoFix interactiveFlag confirmFix filePath ip ln
                      = Inr (Some i, new)
                \<and> issue i = ''Special case: '' @ action_text (sc_action special)
                \<and> suggestion i =
                    (let new = special_new_path ip key special
                     in case sc_action special of
                          Exclude \<Rightarrow> Some ''Excluded from checks''
                        | Rename \<Rightarrow> Some (''Rename to: import ... from '' @ quoted (tpl_undefined new))
                        | ReplaceMethod \<Rightarrow>
                            js_or (map_option cs_description (find (\<lambda>sol. cs_from sol = ip) sols))
                              (Some (''Replace with: import { useUser } from ''
                                     @ quoted (tpl_undefined new)
                                     @ '' (adjust usage accordingly)'')))
                \<and> (fixed i \<longrightarrow> new = special_new_path ip key special))"
proof -
  from assms(2) obtain r where r: "resolveImportPath cfg w filePath ip = Inr r"
    by (rule resolveImportPath_reached)
  have a: "scanAndReport_import cfg w sols dir autoFix dryRun filePath ip ln =
           (let new = special_new_path ip key special;
                fix = (autoFix \<and> truthy new \<and> sc_action special \<noteq> Exclude \<and> \<not> dryRun)
            in Inr (Some \<lparr> inFile = path_relative (cwd w) (cwd w) filePath, line = ln, importPath = ip,
                       issue = ''Special case: '' @ action_text (sc_action special),
                       suggestion =
                         (case sc_action special of
                            Exclude \<Rightarrow> Some ''Excluded from checks''
                          | Rename \<Rightarrow>
                              (case community_suggestion False sols ip of
                                 Some c \<Rightarrow> Some c
                               | None \<Rightarrow> Some (''Rename to: import ... from '' @ quoted (tpl_undefined new)))
                          | ReplaceMethod \<Rightarrow>
                              (case community_suggestion False sols ip of
                                 Some c \<Rightarrow> Some c
                               | None \<Rightarrow> Some (''Replace with: import { useUser } from ''
                                               @ quoted (tpl_undefined new)
                                               @ '' (adjust usage accordingly)''))),
                       fixed = fix, commented = False, userChoice = None \<rparr>,
                if fix then new else None))"
    using assms r
    by (cases "sc_action special")
       (simp_all add: scanAndReport_import_def new_issue_def Let_def js_or_community split: option.splits)
  have b: "\<exists>i new. repocheck_import cfg w sols dir autoFix interactiveFlag confirmFix filePath ip ln
                      = Inr (Some i, new)
                \<and> issue i = ''Special case: '' @ action_text (sc_action special)
                \<and> suggestion i =
                    (let new = special_new_path ip key special
                     in case sc_action special of
                          Exclude \<Rightarrow> Some ''Excluded from checks''
                        | Rename \<Rightarrow> Some (''Rename to: import ... from '' @ quoted (tpl_undefined new))
                        | ReplaceMethod \<Rightarrow>
                            js_or (map_option cs_description (find (\<lambda>sol. cs_from sol = ip) sols))
                              (Some (''Replace with: import { useUser } from ''
                                     @ quoted (tpl_undefined new)
                                     @ '' (adjust usage accordingly)'')))
                \<and> (fixed i \<longrightarrow> new = special_new_path ip key special)"
    using assms r
    by (cases "sc_action special")
       (simp_all add: repocheck_import_def new_issue_def Let_def decide_fix_def)
  from a b show ?thesis by blast
qed


lemma rename_exact_found:
  "find_special rename_exact ''@old/lib'' =
     Some (''@old/lib'', \<lparr> sc_action = Rename, sc_value = Some ''@new/lib'', sc_prefixOnly = False \<rparr>)"
  by (rule find_special_exact) (simp_all add: rename_exact_def)

lemma rename_exact_reached: "\<not> skipped_import rename_exact example_world example_dir ''@old/lib''"
  by (simp add: skipped_import_def rename_exact_def example_world_def example_dir_def
      js_startsWith_def has_dependency_def first_segment_def path_resolve_def)

lemma rename_exact_resolved:
  "resolveImportPath rename_exact example_world ''/proj/src/x.ts'' ''@old/lib'' = Inr None"
  by (simp add: resolveImportPath_own js_startsWith_def rename_exact_def example_world_def)

lemma community_rules_text:
  "community_suggestion False community_rules ''@old/lib''
   = Some (''Rename to: import ... from '' @ quoted ''@community/lib'')"
  by (simp add: community_suggestion_def find_community_def community_rules_def)

theorem override_rule_decides_action_witness:
  "find_special rename_exact ''@old/lib'' =
     Some (''@old/lib'', \<lparr> sc_action = Rename, sc_value = Some ''@new/lib'', sc_prefixOnly = False \<rparr>)
   \<and> \<not> skipped_import rename_exact example_world example_dir ''@old/lib''
   \<and> scanAndReport_import rename_exact example_world community_rules example_dir True False
        ''/proj/src/x.ts'' ''@old/lib'' 3 =
       Inr (Some \<lparr> inFile = ''src/x.ts'', line = 3, importPath = ''@old/lib'',
               issue = ''Special case: rename'',
               suggestion = Some (''Rename to: import ... from '' @ quoted ''@community/lib''),
               fixed = True, commented = False, userChoice = None \<rparr>,
        Some ''@new/lib'')"
  using override_rule_decides_action [OF rename_exact_found rename_exact_reached,
      where sols = community_rules and autoFix = True and dryRun = False
        and filePath = "''/proj/src/x.ts''" and ln = 3]
  by (simp add: rename_exact_found rename_exact_reached community_rules_text special_new_path_def
      example_cwd rel_example Let_def)

text \<open>
  The claim as stated fails: with a community rule for the same specifier the issue
  carries the community rule's suggestion, not the one derived from the override
  rule, which is what the same scan reports when there is no community rule.
\<close>

theorem community_text_replaces_override_text:
  "(\<exists>i new. scanAndReport_import rename_exact example_world community_rules example_dir True False
               ''/proj/src/x.ts'' ''@old/lib'' 3 = Inr (Some i, new)
            \<and> suggestion i = Some (''Rename to: import ... from '' @ quoted ''@community/lib''))
   \<and> (\<exists>i new. scanAndReport_import rename_exact example_world [] example_dir True False
               ''/proj/src/x.ts'' ''@old/lib'' 3 = Inr (Some i, new)
            \<and> suggestion i = Some (''Rename to: import ... from '' @ quoted ''@new/lib''))"
proof -
  have none: "community_suggestion False [] ''@old/lib'' = None"
    by (simp add: community_suggestion_def find_community_def)
  have a: "\<exists>i new. scanAndReport_import rename_exact example_world community_rules example_dir True False
               ''/proj/src/x.ts'' ''@old/lib'' 3 = Inr (Some i, new)
            \<and> suggestion i = Some (''Rename to: import ... from '' @ quoted ''@community/lib'')"
    by (simp add: scanAndReport_import_def rename_exact_found rename_exact_reached rename_exact_resolved
        community_rules_text special_new_path_def new_issue_def js_or_def Let_def quoted_def)
  have b: "\<exists>i new. scanAndReport_import rename_exact example_world [] example_dir True False
               ''/proj/src/x.ts'' ''@old/lib'' 3 = Inr (Some i, new)
            \<and> suggestion i = Some (''Rename to: import ... from '' @ quoted ''@new/lib'')"
    by (simp add: scanAndReport_import_def rename_exact_found rename_exact_reached rename_exact_resolved
        none special_new_path_def new_issue_def js_or_def Let_def)
  from a b show ?thesis by simp
qed

section \<open>Unknown aliases\<close>










section \<open>The new path of a rename rule\<close>

text \<open>
  For a replacement text without a dollar sign, \<open>replace\<close> puts the text in the place
  of the key at the start of the specifier: the new path of a \<open>rename\<close> rule is the
  replacement followed by the rest of the specifier when the rule is \<open>prefixOnly\<close>,
  and the replacement itself otherwise.
\<close>

lemma get_substitution_plain: "CHR ''$'' \<notin> set rep \<Longrightarrow> get_substitution m b a rep = rep"
  by (induction m b a rep rule: get_substitution.induct) auto

lemma split_first_prefix: "prefix key s \<Longrightarrow> split_first key s = Some ([], drop (length key) s)"
  by (cases s) auto

lemma js_replace_prefix:
  assumes "js_startsWith s key" and "CHR ''$'' \<notin> set rep"
  shows "js_replace s key rep = rep @ drop (length key) s"
  using assms
  by (simp add: js_replace_def js_startsWith_def split_first_prefix get_substitution_plain)

lemma rename_replaces_prefix:
  assumes "js_startsWith ip key" and "sc_action special = Rename" and "sc_value special = Some v"
    and "CHR ''$'' \<notin> set v"
  shows "special_new_path ip key special = Some (if sc_prefixOnly special then v @ drop (length key) ip else v)"
  using assms by (simp add: special_new_path_def js_replace_prefix)

lemma scenario_B:
  "special_new_path ''@old/lib'' ''@old''
     \<lparr> sc_action = Rename, sc_value = Some ''@new'', sc_prefixOnly = True \<rparr> = Some ''@new/lib''"
  by (simp add: special_new_path_def js_replace_def)

text \<open>
  C4. The replacement text goes through the substitution patterns of \<open>replace\<close>: a
  rule that renames the prefix \<open>@old\<close> to \<open>@new$$\<close> turns \<open>@old/lib\<close> into \<open>@new$/lib\<close>,
  not into \<open>@new$$/lib\<close>, and that is the path the fix writes.
\<close>

theorem rename_expands_dollar_patterns:
  "find_special dollar_rule ''@old/lib'' =
     Some (''@old'', \<lparr> sc_action = Rename, sc_value = Some ''@new$$'', sc_prefixOnly = True \<rparr>)
   \<and> special_new_path ''@old/lib'' ''@old''
       \<lparr> sc_action = Rename, sc_value = Some ''@new$$'', sc_prefixOnly = True \<rparr> = Some ''@new$/lib''
   \<and> special_new_path ''@old/lib'' ''@old''
       \<lparr> sc_action = Rename, sc_value = Some ''@new$$'', sc_prefixOnly = True \<rparr> \<noteq> Some ''@new$$/lib''
   \<and> (\<exists>i. scanAndReport_import dollar_rule example_world [] example_dir True False
             ''/proj/src/x.ts'' ''@old/lib'' 1 = Inr (Some i, Some ''@new$/lib'') \<and> fixed i)"
proof -
  have f: "find_special dollar_rule ''@old/lib'' =
     Some (''@old'', \<lparr> sc_action = Rename, sc_value = Some ''@new$$'', sc_prefixOnly = True \<rparr>)"
    by (simp add: find_special_def dollar_rule_def js_startsWith_def)
  have n: "special_new_path ''@old/lib'' ''@old''
       \<lparr> sc_action = Rename, sc_value = Some ''@new$$'', sc_prefixOnly = True \<rparr> = Some ''@new$/lib''"
    by (simp add: special_new_path_def js_replace_def)
  have r: "\<not> skipped_import dollar_rule example_world example_dir ''@old/lib''"
    by (simp add: skipped_import_def dollar_rule_def example_world_def example_dir_def
        js_startsWith_def has_dependency_def first_segment_def path_resolve_def)
  have p: "resolveImportPath dollar_rule example_world ''/proj/src/x.ts'' ''@old/lib'' = Inr None"
    by (simp add: resolveImportPath_own js_startsWith_def dollar_rule_def example_world_def)
  have s: "\<exists>i. scanAndReport_import dollar_rule example_world [] example_dir True False
             ''/proj/src/x.ts'' ''@old/lib'' 1 = Inr (Some i, Some ''@new$/lib'') \<and> fixed i"
    by (simp add: scanAndReport_import_def f n r p Let_def)
  from f n s show ?thesis by simp
qed

section \<open>Relative imports under an alias\<close>

lemma sort_key_head:
  assumes "sort_key f xs = a # rest"
  shows "a \<in> set xs \<and> (\<forall>b \<in> set xs. f a \<le> f b)"
proof -
  have "set (a # rest) = set xs" using assms set_sort [of f xs] by simp
  moreover have "sorted (map f (a # rest))" using assms sorted_sort_key [of f xs] by simp
  ultimately show ?thesis by auto
qed

lemma path_resolve_nonempty: "path_resolve wd args \<noteq> []"
  by (simp add: path_resolve_def Let_def split: prod.split)

lemma findMatchingAlias_longest_name:
  assumes "findMatchingAlias cfg (Some rp) = Some a"
  shows "a \<noteq> []
         \<and> (\<exists>ac. (a, ac) \<in> set (aliases cfg) \<and> js_startsWith rp (alias_path ac))
         \<and> (\<forall>(k, kc) \<in> set (aliases cfg). js_startsWith rp (alias_path kc) \<longrightarrow> length k \<le> length a)"
proof -
  let ?m = "map fst (filter (\<lambda>(a, ac). js_startsWith rp (alias_path ac)) (aliases cfg))"
  from assms obtain rest where s: "sort_key (\<lambda>a. - int (length a)) ?m = a # rest" and ne: "a \<noteq> []"
    by (auto simp: findMatchingAlias_def split: if_splits list.splits)
  from sort_key_head [OF s] have ain: "a \<in> set ?m"
    and le: "\<forall>b \<in> set ?m. - int (length a) \<le> - int (length b)" by simp_all
  from ain have ex: "\<exists>ac. (a, ac) \<in> set (aliases cfg) \<and> js_startsWith rp (alias_path ac)" by auto
  have "length k \<le> length a" if "(k, kc) \<in> set (aliases cfg)" and "js_startsWith rp (alias_path kc)" for k kc
  proof -
    from that have "k \<in> set ?m" by force
    with le show ?thesis by fastforce
  qed
  with ne ex show ?thesis by blast
qed

lemma findMatchingAlias_exists:
  assumes "rp \<noteq> []" and "(b, bc) \<in> set (aliases cfg)" and "js_startsWith rp (alias_path bc)"
    and "[] \<notin> fst ` set (aliases cfg)"
  shows "\<exists>a. findMatchingAlias cfg (Some rp) = Some a"
proof -
  let ?m = "map fst (filter (\<lambda>(a, ac). js_startsWith rp (alias_path ac)) (aliases cfg))"
  from assms(2,3) have "b \<in> set ?m" by force
  then have "set (sort_key (\<lambda>a. - int (length a)) ?m) \<noteq> {}" by auto
  then obtain a rest where s: "sort_key (\<lambda>a. - int (length a)) ?m = a # rest"
    by (cases "sort_key (\<lambda>a. - int (length a)) ?m") auto
  from sort_key_head [OF s] have "a \<in> set ?m" by simp
  then have "a \<in> fst ` set (aliases cfg)" by force
  with assms(4) have "a \<noteq> []" by (metis)
  with s assms(1) show ?thesis by (simp add: findMatchingAlias_def)
qed

text \<open>
  C2. \<open>findMatchingAlias\<close> is documented to find the most specific alias of a resolved
  path, and the claim asks for the alias with the longest matching path. The code
  sorts the names of the matching aliases by their length. So, for a relative
  specifier that matches no override rule and resolves to a path of which at least
  one alias path is a string prefix (no alias name being empty), the issue
  \<open>Relative import should use alias\<close> is emitted for the alias with the longest name
  among the aliases whose path is a prefix of the resolved path; the length of the
  alias paths plays no part. Its suggestion is \<open>Change to: import ... from\<close> with the
  resolved path rewritten under that alias when the rewriting succeeds; when it
  fails \<open>scanAndReport\<close> falls back to the community suggestion and \<open>repocheck\<close> prints
  \<open>null\<close>.
\<close>

theorem relative_import_uses_longest_alias_name:
  assumes "js_startsWith ip ''.''" and "find_special cfg ip = None"
    and "resolveImportPath cfg w filePath ip = Inr (Some rp)"
    and "(b, bc) \<in> set (aliases cfg)" and "js_startsWith rp (alias_path bc)"
    and "[] \<notin> fst ` set (aliases cfg)"
  shows "\<exists>a ac new. findMatchingAlias cfg (Some rp) = Some a
           \<and> (a, ac) \<in> set (aliases cfg) \<and> js_startsWith rp (alias_path ac)
           \<and> (\<forall>(k, kc) \<in> set (aliases cfg). js_startsWith rp (alias_path kc) \<longrightarrow> length k \<le> length a)
           \<and> convertToAliasPath cfg w (Some rp) a = Inr new
           \<and> scanAndReport_import cfg w sols dir autoFix dryRun filePath ip ln =
               Inr (let fix = (autoFix \<and> truthy new \<and> \<not> dryRun)
                    in (Some \<lparr> inFile = path_relative (cwd w) (cwd w) filePath, line = ln,
                               importPath = ip,
                               issue = ''Relative import should use alias '' @ quoted a,
                               suggestion =
                                 (if truthy new
                                  then Some (''Change to: import ... from '' @ quoted (tpl_null new))
                                  else community_suggestion False sols ip),
                               fixed = fix, commented = False, userChoice = None \<rparr>,
                        if fix then new else None))
           \<and> (\<exists>i written.
                  repocheck_import cfg w sols dir autoFix interactiveFlag confirmFix filePath ip ln
                    = Inr (Some i, written)
                  \<and> issue i = ''Relative import should use alias '' @ quoted a
                  \<and> suggestion i = Some (''Change to: import ... from '' @ quoted (tpl_null new))
                  \<and> (fixed i \<longrightarrow> written = new))"
proof -
  have at: "\<not> js_startsWith ip ''@''"
    using assms(1) by (cases ip) (auto simp: js_startsWith_def)
  have ns: "\<not> skipped_import cfg w dir ip"
    using assms(1) at by (simp add: skipped_import_def)
  have "rp = path_resolve (cwd w) [path_dirname filePath, ip]"
    using assms(1,3) by (simp add: resolveImportPath_def exists_source_def Let_def split: if_splits)
  then have rpne: "rp \<noteq> []" by (simp add: path_resolve_nonempty)
  from findMatchingAlias_exists [OF rpne assms(4,5,6)]
  obtain a where fa: "findMatchingAlias cfg (Some rp) = Some a" by blast
  from findMatchingAlias_longest_name [OF fa] obtain ac
    where ac: "(a, ac) \<in> set (aliases cfg)" "js_startsWith rp (alias_path ac)"
      and longest: "\<forall>(k, kc) \<in> set (aliases cfg). js_startsWith rp (alias_path kc) \<longrightarrow> length k \<le> length a"
    by blast
  from ac(1) obtain ac' where "map_of (aliases cfg) a = Some ac'"
    using weak_map_of_SomeI by fastforce
  from convertToAliasPath_own [OF this] obtain new
    where new: "convertToAliasPath cfg w (Some rp) a = Inr new" by blast
  have m: "scanAndReport_import cfg w sols dir autoFix dryRun filePath ip ln =
               Inr (let fix = (autoFix \<and> truthy new \<and> \<not> dryRun)
                    in (Some \<lparr> inFile = path_relative (cwd w) (cwd w) filePath, line = ln,
                               importPath = ip,
                               issue = ''Relative import should use alias '' @ quoted a,
                               suggestion =
                                 (if truthy new
                                  then Some (''Change to: import ... from '' @ quoted (tpl_null new))
                                  else community_suggestion False sols ip),
                               fixed = fix, commented = False, userChoice = None \<rparr>,
                        if fix then new else None))"
    using assms(1,2,3) ns fa new
    by (simp add: scanAndReport_import_def new_issue_def Let_def)
  have r: "\<exists>i written.
                  repocheck_import cfg w sols dir autoFix interactiveFlag confirmFix filePath ip ln
                    = Inr (Some i, written)
                  \<and> issue i = ''Relative import should use alias '' @ quoted a
                  \<and> suggestion i = Some (''Change to: import ... from '' @ quoted (tpl_null new))
                  \<and> (fixed i \<longrightarrow> written = new)"
    using assms(1,2,3) ns fa new
    by (simp add: repocheck_import_def new_issue_def Let_def decide_fix_def)
  from fa ac longest new m r show ?thesis by blast
qed


lemma button_resolved:
  "resolveImportPath two_aliases ui_world ''/proj/src/x.ts'' ''./components/Button''
   = Inr (Some ''/proj/src/components/Button'')"
  by code_simp

lemma button_alias:
  "findMatchingAlias two_aliases (Some ''/proj/src/components/Button'') = Some ''@app''"
  by code_simp

lemma button_rewritten:
  "convertToAliasPath two_aliases ui_world (Some ''/proj/src/components/Button'') ''@app''
   = Inr (Some ''@app/components/Button'')"
  by code_simp

lemma button_hyps:
  "js_startsWith ''./components/Button'' ''.''"
  "find_special two_aliases ''./components/Button'' = None"
  "(''@ui'', \<lparr> alias_path = ''/proj/src/components'', alias_description = ''Auto-detected'' \<rparr>)
     \<in> set (aliases two_aliases)"
  "js_startsWith ''/proj/src/components/Button''
     (alias_path \<lparr> alias_path = ''/proj/src/components'', alias_description = ''Auto-detected'' \<rparr>)"
  "[] \<notin> fst ` set (aliases two_aliases)"
  by (simp_all add: js_startsWith_def find_special_def two_aliases_def)

lemma ui_cwd: "cwd ui_world = ''/proj''"
  by (simp add: ui_world_def)

theorem relative_import_uses_longest_alias_name_witness:
  "js_startsWith ''./components/Button'' ''.''
   \<and> find_special two_aliases ''./components/Button'' = None
   \<and> resolveImportPath two_aliases ui_world ''/proj/src/x.ts'' ''./components/Button''
       = Inr (Some ''/proj/src/components/Button'')
   \<and> (''@ui'', \<lparr> alias_path = ''/proj/src/components'', alias_description = ''Auto-detected'' \<rparr>)
       \<in> set (aliases two_aliases)
   \<and> js_startsWith ''/proj/src/components/Button''
       (alias_path \<lparr> alias_path = ''/proj/src/components'', alias_description = ''Auto-detected'' \<rparr>)
   \<and> [] \<notin> fst ` set (aliases two_aliases)
   \<and> scanAndReport_import two_aliases ui_world [] example_dir True False
        ''/proj/src/x.ts'' ''./components/Button'' 2 =
       Inr (Some \<lparr> inFile = ''src/x.ts'', line = 2, importPath = ''./components/Button'',
                   issue = ''Relative import should use alias '' @ quoted ''@app'',
                   suggestion = Some (''Change to: import ... from '' @ quoted ''@app/components/Button''),
                   fixed = True, commented = False, userChoice = None \<rparr>,
            Some ''@app/components/Button'')"
proof -
  from relative_import_uses_longest_alias_name
         [OF button_hyps(1,2) button_resolved button_hyps(3,4,5),
          where sols = "[]" and dir = example_dir and autoFix = True and dryRun = False and ln = 2]
  obtain a new where a: "findMatchingAlias two_aliases (Some ''/proj/src/components/Button'') = Some a"
    and n: "convertToAliasPath two_aliases ui_world (Some ''/proj/src/components/Button'') a = Inr new"
    and r: "scanAndReport_import two_aliases ui_world [] example_dir True False
              ''/proj/src/x.ts'' ''./components/Button'' 2 =
            Inr (let fix = (True \<and> truthy new \<and> \<not> False)
                 in (Some \<lparr> inFile = path_relative (cwd ui_world) (cwd ui_world) ''/proj/src/x.ts'',
                            line = 2, importPath = ''./components/Button'',
                            issue = ''Relative import should use alias '' @ quoted a,
                            suggestion =
                              (if truthy new
                               then Some (''Change to: import ... from '' @ quoted (tpl_null new))
                               else community_suggestion False [] ''./components/Button''),
                            fixed = fix, commented = False, userChoice = None \<rparr>,
                     if fix then new else None))"
    by blast
  from a have a': "a = ''@app''" by (simp add: button_alias)
  with n have "new = Some ''@app/components/Button''" by (simp add: button_rewritten)
  with r a' have "scanAndReport_import two_aliases ui_world [] example_dir True False
        ''/proj/src/x.ts'' ''./components/Button'' 2 =
       Inr (Some \<lparr> inFile = ''src/x.ts'', line = 2, importPath = ''./components/Button'',
                   issue = ''Relative import should use alias '' @ quoted ''@app'',
                   suggestion = Some (''Change to: import ... from '' @ quoted ''@app/components/Button''),
                   fixed = True, commented = False, userChoice = None \<rparr>,
            Some ''@app/components/Button'')"
    by (simp add: ui_cwd rel_example)
  with button_hyps button_resolved show ?thesis by simp
qed

text \<open>
  The claim fails on this input: \<open>/proj/src/components/Button\<close> lies under the paths
  of both aliases, the path of \<open>@ui\<close> is the longer and the more specific one, and the
  alias with the longer name, \<open>@app\<close>, is suggested.
\<close>

theorem longest_base_path_not_chosen:
  "resolveImportPath two_aliases ui_world ''/proj/src/x.ts'' ''./components/Button''
     = Inr (Some ''/proj/src/components/Button'')
   \<and> map_option alias_path (map_of (aliases two_aliases) ''@app'') = Some ''/proj/src''
   \<and> map_option alias_path (map_of (aliases two_aliases) ''@ui'') = Some ''/proj/src/components''
   \<and> js_startsWith ''/proj/src/components/Button'' ''/proj/src''
   \<and> js_startsWith ''/proj/src/components/Button'' ''/proj/src/components''
   \<and> length ''/proj/src'' < length ''/proj/src/components''
   \<and> scanAndReport_import two_aliases ui_world [] example_dir False False
         ''/proj/src/x.ts'' ''./components/Button'' 2 =
       Inr (Some \<lparr> inFile = ''src/x.ts'', line = 2, importPath = ''./components/Button'',
                   issue = ''Relative import should use alias '' @ quoted ''@app'',
                   suggestion = Some (''Change to: import ... from '' @ quoted ''@app/components/Button''),
                   fixed = False, commented = False, userChoice = None \<rparr>, None)"
proof -
  have ns: "\<not> skipped_import two_aliases ui_world example_dir ''./components/Button''"
    by (simp add: skipped_import_def js_startsWith_def)
  have a: "map_option alias_path (map_of (aliases two_aliases) ''@app'') = Some ''/proj/src''"
    "map_option alias_path (map_of (aliases two_aliases) ''@ui'') = Some ''/proj/src/components''"
    "js_startsWith ''/proj/src/components/Button'' ''/proj/src''"
    "js_startsWith ''/proj/src/components/Button'' ''/proj/src/components''"
    by (simp_all add: two_aliases_def js_startsWith_def)
  have s: "scanAndReport_import two_aliases ui_world [] example_dir False False
               ''/proj/src/x.ts'' ''./components/Button'' 2 =
       Inr (Some \<lparr> inFile = ''src/x.ts'', line = 2, importPath = ''./components/Button'',
                   issue = ''Relative import should use alias '' @ quoted ''@app'',
                   suggestion = Some (''Change to: import ... from '' @ quoted ''@app/components/Button''),
                   fixed = False, commented = False, userChoice = None \<rparr>, None)"
    by (simp add: scanAndReport_import_def ns button_hyps button_resolved button_alias button_rewritten
        new_issue_def ui_cwd rel_example Let_def)
  from a s button_resolved show ?thesis by simp
qed

section \<open>Segments, joins and normal forms\<close>

text \<open>
  Splitting at slashes and joining with slashes are inverse to each other, and
  \<open>resolve\<close> yields a slash followed by joined segments none of which is empty, a dot
  or two dots.
\<close>

lemma js_split_append: "js_split d (a @ d # b) = js_split d a @ js_split d b"
proof (induction a)
  case Nil
  show ?case by simp
next
  case (Cons c cs)
  obtain r rs where r: "js_split d cs = r # rs"
    using js_split_nonempty [of d cs] by (cases "js_split d cs") auto
  show ?case
  proof (cases "c = d")
    case True
    with Cons.IH show ?thesis by simp
  next
    case False
    with Cons.IH r show ?thesis by simp
  qed
qed

lemma js_split_no_sep: "d \<notin> set s \<Longrightarrow> js_split d s = [s]"
  by (induction s) auto

lemma js_split_elem_no_sep: "g \<in> set (js_split d s) \<Longrightarrow> d \<notin> set g"
proof (induction s arbitrary: g)
  case Nil
  then show ?case by simp
next
  case (Cons c cs)
  obtain r rs where r: "js_split d cs = r # rs"
    using js_split_nonempty [of d cs] by (cases "js_split d cs") auto
  show ?case
  proof (cases "c = d")
    case True
    with Cons.prems Cons.IH show ?thesis by auto
  next
    case False
    with Cons.prems r have "g = c # r \<or> g \<in> set rs" by simp
    then show ?thesis
    proof
      assume "g = c # r"
      moreover have "d \<notin> set r" using Cons.IH [of r] r by simp
      ultimately show ?thesis using False by simp
    next
      assume "g \<in> set rs"
      then show ?thesis using Cons.IH [of g] r by simp
    qed
  qed
qed

lemma js_split_elem_chars: "g \<in> set (js_split d s) \<Longrightarrow> set g \<subseteq> set s"
proof (induction s arbitrary: g)
  case Nil
  then show ?case by simp
next
  case (Cons c cs)
  obtain r rs where r: "js_split d cs = r # rs"
    using js_split_nonempty [of d cs] by (cases "js_split d cs") auto
  show ?case
  proof (cases "c = d")
    case True
    with Cons.prems Cons.IH show ?thesis by auto
  next
    case False
    with Cons.prems r have "g = c # r \<or> g \<in> set rs" by simp
    then show ?thesis
    proof
      assume "g = c # r"
      moreover have "set r \<subseteq> set cs" using Cons.IH [of r] r by simp
      ultimately show ?thesis by auto
    next
      assume "g \<in> set rs"
      then have "set g \<subseteq> set cs" using Cons.IH [of g] r by simp
      then show ?thesis by auto
    qed
  qed
qed

lemma js_join_Cons: "js_join d (x # xs) = (if xs = [] then x else x @ d @ js_join d xs)"
  by (cases xs) simp_all

lemma js_join_first_char: "js_join d ((c # r) # rs) = c # js_join d (r # rs)"
  by (simp add: js_join_Cons)

lemma js_join_split: "js_join [d] (js_split d s) = s"
proof (induction s)
  case Nil
  show ?case by simp
next
  case (Cons c cs)
  obtain r rs where r: "js_split d cs = r # rs"
    using js_split_nonempty [of d cs] by (cases "js_split d cs") auto
  show ?case
  proof (cases "c = d")
    case True
    with Cons.IH r show ?thesis by (simp add: js_join_Cons)
  next
    case False
    with Cons.IH r show ?thesis by (simp add: js_join_first_char)
  qed
qed

lemma js_split_join:
  assumes "segs \<noteq> []" and "\<forall>g \<in> set segs. d \<notin> set g"
  shows "js_split d (js_join [d] segs) = segs"
  using assms
proof (induction segs)
  case Nil
  then show ?case by simp
next
  case (Cons x xs)
  show ?case
  proof (cases "xs = []")
    case True
    with Cons.prems show ?thesis by (simp add: js_split_no_sep)
  next
    case False
    with Cons.prems Cons.IH have ih: "js_split d (js_join [d] xs) = xs" by simp
    have "js_join [d] (x # xs) = x @ d # js_join [d] xs" using False by (simp add: js_join_Cons)
    then have "js_split d (js_join [d] (x # xs)) = js_split d x @ js_split d (js_join [d] xs)"
      by (simp add: js_split_append)
    with ih Cons.prems show ?thesis by (simp add: js_split_no_sep)
  qed
qed

lemma js_join_prefix: "prefix (js_join d xs) (js_join d (xs @ ys))"
proof (induction xs)
  case Nil
  show ?case by simp
next
  case (Cons x xs)
  show ?case
  proof (cases "xs = []")
    case True
    then show ?thesis by (cases ys) (simp_all add: js_join_Cons)
  next
    case False
    with Cons.IH show ?thesis by (simp add: js_join_Cons)
  qed
qed

lemma js_join_chars: "set (js_join d xs) \<subseteq> set d \<union> \<Union> (set ` set xs)"
  by (induction d xs rule: js_join.induct) auto

lemma normalize_segments_append:
  "normalize_segments up st (xs @ ys) = normalize_segments up (rev (normalize_segments up st xs)) ys"
  by (induction xs arbitrary: st) (auto split: list.splits)

lemma normalize_segments_plain:
  "''..'' \<notin> set ys \<Longrightarrow>
   normalize_segments up st ys = rev st @ filter (\<lambda>g. g \<noteq> [] \<and> g \<noteq> ''.'') ys"
  by (induction ys arbitrary: st) auto

lemma normalize_segments_clean:
  "g \<in> set (normalize_segments False st xs) \<Longrightarrow>
   g \<in> set st \<or> (g \<in> set xs \<and> g \<noteq> [] \<and> g \<noteq> ''.'' \<and> g \<noteq> ''..'')"
proof (induction False st xs rule: normalize_segments.induct)
  case (1 st)
  then show ?case by simp
next
  case (2 st g' gs)
  then show ?case
    by (auto split: if_splits list.splits)
qed

text \<open>The path that \<open>resolve\<close> normalizes when the working directory is absolute.\<close>

lemma resolve_right_absolute:
  assumes "js_startsWith wd ''/''"
  shows "\<exists>r. resolve_right (xs @ [wd]) acc = (r, True)"
proof (induction xs arbitrary: acc)
  case Nil
  from assms have "wd \<noteq> []" "hd wd = CHR ''/''"
    by (auto simp: js_startsWith_def prefix_def)
  then show ?case by simp
next
  case (Cons x xs)
  then show ?case by simp
qed

lemma path_resolve_absolute:
  assumes "js_startsWith wd ''/''"
  shows "\<exists>segs. path_resolve wd args = CHR ''/'' # js_join ''/'' segs
            \<and> (\<forall>g \<in> set segs. g \<noteq> [] \<and> g \<noteq> ''.'' \<and> g \<noteq> ''..'' \<and> CHR ''/'' \<notin> set g)"
proof -
  from resolve_right_absolute [OF assms, of "rev args" "[]"]
  obtain r where r: "resolve_right (rev args @ [wd]) [] = (r, True)" by blast
  let ?segs = "normalize_segments False [] (js_split CHR ''/'' r)"
  have "path_resolve wd args = CHR ''/'' # js_join ''/'' ?segs"
    using r by (simp add: path_resolve_def)
  moreover have "g \<noteq> [] \<and> g \<noteq> ''.'' \<and> g \<noteq> ''..'' \<and> CHR ''/'' \<notin> set g" if "g \<in> set ?segs" for g
    using normalize_segments_clean [OF that] js_split_elem_no_sep [of g "CHR ''/''" r] by auto
  ultimately show ?thesis by blast
qed

lemma path_resolve_one:
  assumes "js_startsWith p ''/''"
  shows "path_resolve wd [p] = CHR ''/'' # js_join ''/'' (normalize_segments False [] (js_split CHR ''/'' p))"
proof -
  from assms have p: "p \<noteq> []" "hd p = CHR ''/''" by (auto simp: js_startsWith_def prefix_def)
  have "js_split CHR ''/'' (p @ ''/'') = js_split CHR ''/'' p @ [[]]"
    using js_split_append [of "CHR ''/''" p "[]"] by simp
  then have "normalize_segments False [] (js_split CHR ''/'' (p @ ''/''))
             = normalize_segments False [] (js_split CHR ''/'' p)"
    by (simp add: normalize_segments_append)
  with p show ?thesis by (simp add: path_resolve_def)
qed

lemma path_resolve_under:
  assumes "js_startsWith p ''/''" and "path_resolve wd [p] = p"
    and "q = [] \<or> hd q \<noteq> CHR ''/''" and "''..'' \<notin> set (js_split CHR ''/'' q)"
  shows "js_startsWith (path_resolve wd [p, q]) p"
proof (cases "q = []")
  case True
  with assms(1,2) show ?thesis
    by (simp add: path_resolve_def js_startsWith_def)
next
  case False
  from assms(1) have p: "p \<noteq> []" "hd p = CHR ''/''" by (auto simp: js_startsWith_def prefix_def)
  let ?A = "normalize_segments False [] (js_split CHR ''/'' p)"
  let ?B = "filter (\<lambda>g. g \<noteq> [] \<and> g \<noteq> ''.'') (js_split CHR ''/'' q @ [[]])"
  have s: "js_split CHR ''/'' (p @ ''/'' @ q @ ''/'') = js_split CHR ''/'' p @ js_split CHR ''/'' q @ [[]]"
    using js_split_append [of "CHR ''/''" p "q @ ''/''"] js_split_append [of "CHR ''/''" q "[]"] by simp
  have nb: "''..'' \<notin> set (js_split CHR ''/'' q @ [[]])"
    using assms(4) by simp
  have "normalize_segments False [] (js_split CHR ''/'' (p @ ''/'' @ q @ ''/''))
        = normalize_segments False (rev ?A) (js_split CHR ''/'' q @ [[]])"
    unfolding s by (rule normalize_segments_append)
  also have "\<dots> = rev (rev ?A) @ ?B"
    using nb by (rule normalize_segments_plain)
  finally have "normalize_segments False [] (js_split CHR ''/'' (p @ ''/'' @ q @ ''/'')) = ?A @ ?B"
    by simp
  moreover have "resolve_right [q, p, wd] [] = (p @ ''/'' @ q @ ''/'', True)"
    using False assms(3) p by simp
  ultimately have res: "path_resolve wd [p, q] = CHR ''/'' # js_join ''/'' (?A @ ?B)"
    by (simp add: path_resolve_def)
  have pe: "CHR ''/'' # js_join ''/'' ?A = p"
    using path_resolve_one [OF assms(1), of wd] assms(2) by simp
  have "prefix (CHR ''/'' # js_join ''/'' ?A) (CHR ''/'' # js_join ''/'' (?A @ ?B))"
    using js_join_prefix [of "''/''" ?A ?B] by simp
  then have "prefix p (path_resolve wd [p, q])"
    unfolding res pe .
  then show ?thesis by (simp add: js_startsWith_def)
qed

lemma drop_common_snd: "set (snd (drop_common xs ys)) \<subseteq> set ys"
  by (induction xs ys rule: drop_common.induct) auto

lemma path_resolve_segments:
  assumes "js_startsWith wd ''/''" and "js_startsWith rp ''/''"
    and "g \<in> set (filter (\<lambda>g. g \<noteq> []) (js_split CHR ''/'' (path_resolve wd [rp])))"
  shows "g \<noteq> [] \<and> g \<noteq> ''..'' \<and> CHR ''/'' \<notin> set g \<and> set g \<subseteq> set rp"
proof -
  let ?segs = "normalize_segments False [] (js_split CHR ''/'' rp)"
  have t: "path_resolve wd [rp] = CHR ''/'' # js_join ''/'' ?segs"
    by (rule path_resolve_one [OF assms(2)])
  have clean: "h \<noteq> [] \<and> h \<noteq> ''..'' \<and> CHR ''/'' \<notin> set h \<and> set h \<subseteq> set rp" if "h \<in> set ?segs" for h
    using normalize_segments_clean [OF that] js_split_elem_no_sep [of h "CHR ''/''" rp]
      js_split_elem_chars [of h "CHR ''/''" rp] by auto
  have "js_split CHR ''/'' (CHR ''/'' # js_join ''/'' ?segs) = [] # js_split CHR ''/'' (js_join ''/'' ?segs)"
    by simp
  moreover have "set (js_split CHR ''/'' (js_join ''/'' ?segs)) \<subseteq> insert [] (set ?segs)"
  proof (cases "?segs = []")
    case True
    then show ?thesis by simp
  next
    case False
    then have "js_split CHR ''/'' (js_join ''/'' ?segs) = ?segs"
      using clean by (intro js_split_join) auto
    then show ?thesis by auto
  qed
  ultimately have "set (js_split CHR ''/'' (path_resolve wd [rp])) \<subseteq> insert [] (set ?segs)"
    unfolding t by auto
  with assms(3) have "g \<in> set ?segs" by auto
  then show ?thesis by (rule clean)
qed

lemma js_join_dotdot: "js_startsWith (js_join ''/'' (replicate (Suc n) ''..'' @ ts)) ''..''"
  by (simp add: js_join_Cons js_startsWith_def)

lemma path_relative_structure:
  assumes "js_startsWith wd ''/''" and "js_startsWith rp ''/''"
    and "\<not> js_startsWith (path_relative wd p rp) ''..''"
  shows "\<exists>ts. path_relative wd p rp = js_join ''/'' ts
            \<and> (\<forall>g \<in> set ts. g \<noteq> [] \<and> g \<noteq> ''..'' \<and> CHR ''/'' \<notin> set g \<and> set g \<subseteq> set rp)"
proof (cases "p = rp \<or> path_resolve wd [p] = path_resolve wd [rp]")
  case True
  then have "path_relative wd p rp = js_join ''/'' []"
    by (auto simp: path_relative_def Let_def)
  then show ?thesis by (intro exI [of _ "[]"]) simp
next
  case False
  let ?F = "filter (\<lambda>g. g \<noteq> []) (js_split CHR ''/'' (path_resolve wd [p]))"
  let ?T = "filter (\<lambda>g. g \<noteq> []) (js_split CHR ''/'' (path_resolve wd [rp]))"
  obtain fs ts where d: "drop_common ?F ?T = (fs, ts)" by (cases "drop_common ?F ?T")
  with False have rel: "path_relative wd p rp = js_join ''/'' (replicate (length fs) ''..'' @ ts)"
    by (simp add: path_relative_def Let_def)
  have "fs = []"
  proof (rule ccontr)
    assume "fs \<noteq> []"
    then obtain n where "length fs = Suc n" by (cases fs) auto
    with rel assms(3) js_join_dotdot [of n ts] show False by simp
  qed
  with rel have "path_relative wd p rp = js_join ''/'' ts" by simp
  moreover have "set ts \<subseteq> set ?T" using drop_common_snd [of ?F ?T] d by simp
  ultimately show ?thesis
    using path_resolve_segments [OF assms(1,2)] by blast
qed

lemma path_relative_chars:
  assumes "js_startsWith wd ''/''" and "js_startsWith rp ''/''"
  shows "set (path_relative wd p rp) \<subseteq> set rp \<union> {CHR ''/'', CHR ''.''}"
proof (cases "p = rp \<or> path_resolve wd [p] = path_resolve wd [rp]")
  case True
  then show ?thesis by (auto simp: path_relative_def Let_def)
next
  case False
  let ?F = "filter (\<lambda>g. g \<noteq> []) (js_split CHR ''/'' (path_resolve wd [p]))"
  let ?T = "filter (\<lambda>g. g \<noteq> []) (js_split CHR ''/'' (path_resolve wd [rp]))"
  obtain fs ts where d: "drop_common ?F ?T = (fs, ts)" by (cases "drop_common ?F ?T")
  with False have rel: "path_relative wd p rp = js_join ''/'' (replicate (length fs) ''..'' @ ts)"
    by (simp add: path_relative_def Let_def)
  have ts: "set ts \<subseteq> set ?T" using drop_common_snd [of ?F ?T] d by simp
  have "set g \<subseteq> set rp \<union> {CHR ''/'', CHR ''.''}" if "g \<in> set (replicate (length fs) ''..'' @ ts)" for g
  proof -
    from that consider "g = ''..''" | "g \<in> set ts" by auto
    then show ?thesis
    proof cases
      case 1
      then show ?thesis by simp
    next
      case 2
      with ts path_resolve_segments [OF assms, of g] show ?thesis by auto
    qed
  qed
  then have "\<Union> (set ` set (replicate (length fs) ''..'' @ ts)) \<subseteq> set rp \<union> {CHR ''/'', CHR ''.''}"
    by blast
  with js_join_chars [of "''/''" "replicate (length fs) ''..'' @ ts"] rel show ?thesis by auto
qed

text \<open>What \<open>convertToAliasPath\<close> returns, for a resolved path without a backslash.\<close>

lemma convertToAliasPath_structure:
  assumes "js_startsWith (cwd w) ''/''" and "js_startsWith rp ''/''" and "CHR 0x5C \<notin> set rp"
    and "convertToAliasPath cfg w (Some rp) a = Inr (Some ip')"
  shows "\<exists>ac ts. map_of (aliases cfg) a = Some ac \<and> ip' = a @ ''/'' @ js_join ''/'' ts
            \<and> (\<forall>g \<in> set ts. g \<noteq> [] \<and> g \<noteq> ''..'' \<and> CHR ''/'' \<notin> set g)"
proof -
  from assms(4) obtain ac where ac: "map_of (aliases cfg) a = Some ac"
    by (auto simp: convertToAliasPath_def js_get_def split: option.splits if_splits)
  let ?rel = "path_relative (cwd w) (alias_path ac) rp"
  have "CHR 0x5C \<notin> set ?rel"
    using path_relative_chars [OF assms(1,2), of "alias_path ac"] assms(3) by auto
  then have m: "map (\<lambda>c. if c = CHR 0x5C then CHR ''/'' else c) ?rel = ?rel"
    by (intro map_idI) auto
  from assms(4) m have ns: "\<not> js_startsWith ?rel ''..''" and ip: "ip' = a @ ''/'' @ ?rel"
    by (auto simp: convertToAliasPath_own [OF ac] Let_def split: if_splits)
  from path_relative_structure [OF assms(1,2) ns] ac ip show ?thesis by blast
qed

lemma split_first_too_long: "length s < length pat \<Longrightarrow> split_first pat s = None"
proof (induction s)
  case Nil
  then show ?case by simp
next
  case (Cons c cs)
  then have "\<not> prefix pat (c # cs)" by (auto dest: prefix_length_le)
  with Cons show ?case by simp
qed

lemma js_replace_remove_prefix: "js_replace (x @ r) x [] = r"
  by (simp add: js_replace_def split_first_prefix)

lemma split_two:
  assumes "CHR ''/'' \<in> set s"
  obtains g1 g2 rest where "js_split CHR ''/'' s = g1 # g2 # rest"
proof -
  obtain g1 r where r: "js_split CHR ''/'' s = g1 # r"
    using js_split_nonempty [of "CHR ''/''" s] by (cases "js_split CHR ''/'' s") auto
  have "r \<noteq> []"
  proof
    assume "r = []"
    with r js_join_split [of "CHR ''/''" s] have "s = g1" by simp
    moreover have "CHR ''/'' \<notin> set g1" using js_split_elem_no_sep [of g1 "CHR ''/''" s] r by simp
    ultimately show False using assms by simp
  qed
  then obtain g2 rest where "r = g2 # rest" by (cases r) auto
  with r that show ?thesis by simp
qed

text \<open>
  The part of a specifier that \<open>resolveImportPath\<close> resolves under the alias path:
  the specifier without its alias and the slash behind it.
\<close>

lemma relative_part_clean:
  assumes "CHR ''/'' \<in> set s" and "s \<noteq> []" and "hd s \<noteq> CHR ''/''"
    and "''..'' \<notin> set (js_split CHR ''/'' s)" and "[] \<notin> set (butlast (js_split CHR ''/'' s))"
    and "x = first_segment s \<or> x = two_segments s"
  shows "(js_replace s (x @ ''/'') [] = [] \<or> hd (js_replace s (x @ ''/'') []) \<noteq> CHR ''/'')
         \<and> ''..'' \<notin> set (js_split CHR ''/'' (js_replace s (x @ ''/'') []))"
proof -
  from split_two [OF assms(1)] obtain g1 g2 rest where sp: "js_split CHR ''/'' s = g1 # g2 # rest" .
  have s: "s = js_join ''/'' (g1 # g2 # rest)" using js_join_split [of "CHR ''/''" s] sp by simp
  have tail: "(r = [] \<or> hd r \<noteq> CHR ''/'') \<and> ''..'' \<notin> set (js_split CHR ''/'' r)"
    if "s = y @ ''/'' @ r" for y r
  proof -
    from that have sr: "js_split CHR ''/'' s = js_split CHR ''/'' y @ js_split CHR ''/'' r"
      using js_split_append [of "CHR ''/''" y r] by simp
    with assms(4) have "''..'' \<notin> set (js_split CHR ''/'' r)" by simp
    moreover have "r = [] \<or> hd r \<noteq> CHR ''/''"
    proof (rule ccontr)
      assume "\<not> (r = [] \<or> hd r \<noteq> CHR ''/'')"
      then obtain r' where r': "r = CHR ''/'' # r'" by (cases r) auto
      then have "js_split CHR ''/'' r = [] # js_split CHR ''/'' r'" by simp
      with sr have "js_split CHR ''/'' s = (js_split CHR ''/'' y @ [[]]) @ js_split CHR ''/'' r'" by simp
      then have "butlast (js_split CHR ''/'' s)
                 = (js_split CHR ''/'' y @ [[]]) @ butlast (js_split CHR ''/'' r')"
        using js_split_nonempty [of "CHR ''/''" r'] by (simp add: butlast_append)
      with assms(5) show False by simp
    qed
    ultimately show ?thesis by simp
  qed
  from assms(6) show ?thesis
  proof
    assume x: "x = first_segment s"
    then have "x = g1" using sp by (simp add: first_segment_def)
    with s have e: "s = (x @ ''/'') @ js_join ''/'' (g2 # rest)" by (simp add: js_join_Cons)
    then have "js_replace s (x @ ''/'') [] = js_join ''/'' (g2 # rest)"
      using js_replace_remove_prefix [of "x @ ''/''" "js_join ''/'' (g2 # rest)"] by simp
    with tail [of x "js_join ''/'' (g2 # rest)"] e show ?thesis by simp
  next
    assume x: "x = two_segments s"
    then have xg: "x = g1 @ ''/'' @ g2" using sp by (simp add: two_segments_def)
    show ?thesis
    proof (cases "rest = []")
      case True
      with s xg have "s = x" by simp
      then have "split_first (x @ ''/'') s = None" by (intro split_first_too_long) simp
      then have "js_replace s (x @ ''/'') [] = s" by (simp add: js_replace_def)
      with assms(2,3,4) show ?thesis by simp
    next
      case False
      with s xg have e: "s = (x @ ''/'') @ js_join ''/'' rest" by (simp add: js_join_Cons)
      then have "js_replace s (x @ ''/'') [] = js_join ''/'' rest"
        using js_replace_remove_prefix [of "x @ ''/''" "js_join ''/'' rest"] by simp
      with tail [of x "js_join ''/'' rest"] e show ?thesis by simp
    qed
  qed
qed

section \<open>Classifying a rewritten import again\<close>

lemma rewritten_specifier_segments:
  assumes "[] \<notin> set (js_split CHR ''/'' a)" and "''..'' \<notin> set (js_split CHR ''/'' a)"
    and "\<forall>g \<in> set ts. g \<noteq> [] \<and> g \<noteq> ''..'' \<and> CHR ''/'' \<notin> set g"
    and "s = a @ ''/'' @ js_join ''/'' ts"
  shows "a \<noteq> []" and "s \<noteq> []" and "hd s = hd a" and "CHR ''/'' \<in> set s"
    and "''..'' \<notin> set (js_split CHR ''/'' s)" and "[] \<notin> set (butlast (js_split CHR ''/'' s))"
proof -
  show a: "a \<noteq> []" using assms(1) by auto
  with assms(4) show "s \<noteq> []" and "hd s = hd a" and "CHR ''/'' \<in> set s" by simp_all
  have sp: "js_split CHR ''/'' s = js_split CHR ''/'' a @ js_split CHR ''/'' (js_join ''/'' ts)"
    using assms(4) js_split_append [of "CHR ''/''" a "js_join ''/'' ts"] by simp
  show "''..'' \<notin> set (js_split CHR ''/'' s)" and "[] \<notin> set (butlast (js_split CHR ''/'' s))"
  proof -
    have "''..'' \<notin> set (js_split CHR ''/'' s) \<and> [] \<notin> set (butlast (js_split CHR ''/'' s))"
    proof (cases "ts = []")
      case True
      with sp assms(1,2) show ?thesis by (simp add: butlast_append)
    next
      case False
      then have "js_split CHR ''/'' (js_join ''/'' ts) = ts"
        using assms(3) by (intro js_split_join) auto
      with sp have e: "js_split CHR ''/'' s = js_split CHR ''/'' a @ ts" by simp
      have "butlast (js_split CHR ''/'' s) = js_split CHR ''/'' a @ butlast ts"
        using e False by (simp add: butlast_append)
      moreover have "[] \<notin> set (butlast ts)" using assms(3) by (auto dest: in_set_butlastD)
      ultimately show ?thesis using e assms(1,2,3) by auto
    qed
    then show "''..'' \<notin> set (js_split CHR ''/'' s)" and "[] \<notin> set (butlast (js_split CHR ''/'' s))"
      by simp_all
  qed
qed

lemma starts_with_char: "js_startsWith s [c] \<longleftrightarrow> s \<noteq> [] \<and> hd s = c"
  by (cases s) (auto simp: js_startsWith_def)

text \<open>
  A specifier of the form alias, slash, clean segments: the scan either skips it,
  or does not know its root, or finds it resolved under its alias.
\<close>

lemma alias_specifier_settled:
  assumes wd: "js_startsWith (cwd w) ''/''"
    and paths: "\<forall>(k, kc) \<in> set (aliases cfg).
                  js_startsWith (alias_path kc) ''/'' \<and> path_resolve (cwd w) [alias_path kc] = alias_path kc"
    and names: "\<forall>(k, kc) \<in> set (aliases cfg).
                  \<not> js_startsWith k ''.'' \<and> [] \<notin> set (js_split CHR ''/'' k)
                  \<and> ''..'' \<notin> set (js_split CHR ''/'' k)"
    and a: "map_of (aliases cfg) a = Some ac"
    and ts: "\<forall>g \<in> set ts. g \<noteq> [] \<and> g \<noteq> ''..'' \<and> CHR ''/'' \<notin> set g"
    and s: "s = a @ ''/'' @ js_join ''/'' ts"
    and norule: "find_special cfg s = None"
  shows "scanAndReport_import cfg w sols dir autoFix dryRun filePath s ln = Inr (None, None)
         \<or> (\<exists>j. scanAndReport_import cfg w sols dir autoFix dryRun filePath s ln = Inr (Some j, None)
                \<and> js_startsWith (issue j) ''Unknown alias '')"
proof (cases "skipped_import cfg w dir s")
  case True
  then show ?thesis by (simp add: scanAndReport_import_def Let_def)
next
  case False
  from a have ain: "(a, ac) \<in> set (aliases cfg)" by (rule map_of_SomeD)
  with names have an: "\<not> js_startsWith a ''.''" "[] \<notin> set (js_split CHR ''/'' a)"
    "''..'' \<notin> set (js_split CHR ''/'' a)" by auto
  note seg = rewritten_specifier_segments [OF an(2,3) ts s]
  have dot: "\<not> js_startsWith s ''.''"
    using an(1) seg(1,2,3) by (simp add: starts_with_char)
  with False have at: "js_startsWith s ''@''" by (auto simp: skipped_import_def)
  then have slash: "hd s \<noteq> CHR ''/''" by (simp add: starts_with_char)
  from at have start: "js_startsWith s ''.'' \<or> js_startsWith s ''@''" by simp
  note absent = js_get_Absent [OF start]
  obtain r where r: "resolveImportPath cfg w filePath s = Inr r"
    using resolveImportPath_own [OF start] by blast
  have fa: "full_alias s = two_segments s"
    using seg(4) by (simp add: full_alias_def js_includes_char)
  have under: "js_startsWith rp (alias_path kc)"
    if k: "map_of (aliases cfg) x = Some kc" and x: "x = first_segment s \<or> x = two_segments s"
      and rp: "exists_source w (path_resolve (cwd w) [alias_path kc, js_replace s (x @ ''/'') []]) = Some rp"
    for x kc rp
  proof -
    from k have "(x, kc) \<in> set (aliases cfg)" by (rule map_of_SomeD)
    with paths have p: "js_startsWith (alias_path kc) ''/''"
      "path_resolve (cwd w) [alias_path kc] = alias_path kc" by auto
    from relative_part_clean [OF seg(4) seg(2) slash seg(5) seg(6) x]
    have q: "js_replace s (x @ ''/'') [] = [] \<or> hd (js_replace s (x @ ''/'') []) \<noteq> CHR ''/''"
      "''..'' \<notin> set (js_split CHR ''/'' (js_replace s (x @ ''/'') []))" by simp_all
    from rp have "rp = path_resolve (cwd w) [alias_path kc, js_replace s (x @ ''/'') []]"
      by (simp add: exists_source_def split: if_splits)
    with path_resolve_under [OF p q] show ?thesis by simp
  qed
  show ?thesis
  proof (cases "map_of (aliases cfg) (full_alias s)")
    case (Some ac1)
    from Some paths have ne: "alias_path ac1 \<noteq> []"
      by (auto dest!: map_of_SomeD simp: starts_with_char)
    then have ep: "expected_path cfg (full_alias s) (first_segment s) = Some (alias_path ac1)"
      using Some by (simp add: expected_path_own [OF start] js_or_def)
    have res: "r = exists_source w
                     (path_resolve (cwd w) [alias_path ac1, js_replace s (full_alias s @ ''/'') []])"
      using dot Some r by (simp add: resolveImportPath_own [OF start])
    have ok: "js_startsWith rp (alias_path ac1)" if "r = Some rp" for rp
      using under [of "two_segments s" ac1 rp] Some that res fa by simp
    from Some have known: "js_get (aliases cfg) (full_alias s) \<noteq> Absent"
      by (simp add: absent)
    show ?thesis
    proof (cases r)
      case None
      with False norule dot at known ep r show ?thesis
        by (simp add: scanAndReport_import_def Let_def)
    next
      case rs: (Some rp)
      with ok have "js_startsWith rp (alias_path ac1)" by simp
      with False norule dot at known ep r rs show ?thesis
        by (simp add: scanAndReport_import_def Let_def)
    qed
  next
    case None
    show ?thesis
    proof (cases "map_of (aliases cfg) (first_segment s)")
      case n2: None
      with None have unknown: "js_get (aliases cfg) (full_alias s) = Absent"
        "js_get (aliases cfg) (first_segment s) = Absent"
        by (simp_all add: absent)
      with False norule dot at r show ?thesis
        by (simp add: scanAndReport_import_def Let_def new_issue_def js_startsWith_def)
    next
      case (Some ac2)
      have ep: "expected_path cfg (full_alias s) (first_segment s) = Some (alias_path ac2)"
        using None Some by (simp add: expected_path_own [OF start] js_or_def)
      have res: "r = exists_source w
                       (path_resolve (cwd w) [alias_path ac2, js_replace s (first_segment s @ ''/'') []])"
        using dot None Some r by (simp add: resolveImportPath_own [OF start])
      have ok: "js_startsWith rp (alias_path ac2)" if "r = Some rp" for rp
        using under [of "first_segment s" ac2 rp] Some that res by simp
      from Some have known: "js_get (aliases cfg) (first_segment s) \<noteq> Absent"
        by (simp add: absent)
      show ?thesis
      proof (cases r)
        case rn: None
        with False norule dot at known ep r show ?thesis
          by (simp add: scanAndReport_import_def Let_def)
      next
        case rs: (Some rp)
        with ok have "js_startsWith rp (alias_path ac2)" by simp
        with False norule dot at known ep r rs show ?thesis
          by (simp add: scanAndReport_import_def Let_def)
      qed
    qed
  qed
qed

lemma path_resolve_starts_with_slash:
  assumes "js_startsWith wd ''/''"
  shows "js_startsWith (path_resolve wd args) ''/''"
proof -
  from path_resolve_absolute [OF assms, of args]
  obtain segs where "path_resolve wd args = CHR ''/'' # js_join ''/'' segs" by blast
  then show ?thesis by (simp add: js_startsWith_def)
qed

lemma exists_source_Some: "exists_source w r = Some rp \<Longrightarrow> rp = r"
  by (simp add: exists_source_def split: if_splits)

lemma resolved_is_absolute:
  assumes "js_startsWith (cwd w) ''/''" and "resolveImportPath cfg w filePath ip = Inr (Some rp)"
    and "js_startsWith ip ''.'' \<or> js_startsWith ip ''@''"
    and "js_startsWith ip ''.'' \<or> map_of (aliases cfg) (full_alias ip) \<noteq> None
         \<or> map_of (aliases cfg) (first_segment ip) \<noteq> None"
  shows "js_startsWith rp ''/''"
proof -
  have "\<exists>args. rp = path_resolve (cwd w) args"
  proof (cases "js_startsWith ip ''.''")
    case True
    with assms(2) have "exists_source w (path_resolve (cwd w) [path_dirname filePath, ip]) = Some rp"
      by (simp add: resolveImportPath_own [OF assms(3)])
    then show ?thesis by (blast dest: exists_source_Some)
  next
    case False
    show ?thesis
    proof (cases "map_of (aliases cfg) (full_alias ip)")
      case (Some ac)
      with assms(2) False
      have "exists_source w (path_resolve (cwd w) [alias_path ac, js_replace ip (full_alias ip @ ''/'') []])
            = Some rp"
        by (simp add: resolveImportPath_own [OF assms(3)])
      then show ?thesis by (blast dest: exists_source_Some)
    next
      case None
      with assms(4) False obtain ac where ac: "map_of (aliases cfg) (first_segment ip) = Some ac"
        by auto
      with assms(2) False None
      have "exists_source w (path_resolve (cwd w) [alias_path ac, js_replace ip (first_segment ip @ ''/'') []])
            = Some rp"
        by (simp add: resolveImportPath_own [OF assms(3)])
      then show ?thesis by (blast dest: exists_source_Some)
    qed
  qed
  with assms(1) show ?thesis by (auto simp: path_resolve_starts_with_slash)
qed

text \<open>A fix that no override rule made rewrites the specifier under an alias.\<close>

lemma alias_fix_origin:
  assumes "scanAndReport_import cfg w sols dir autoFix dryRun filePath ip ln = Inr (Some i, Some ip')"
    and "find_special cfg ip = None"
  shows "\<exists>rp a. resolveImportPath cfg w filePath ip = Inr (Some rp)
           \<and> convertToAliasPath cfg w (Some rp) a = Inr (Some ip')
           \<and> (js_startsWith ip ''.'' \<or> js_startsWith ip ''@'')
           \<and> (js_startsWith ip ''.'' \<or> map_of (aliases cfg) (full_alias ip) \<noteq> None
               \<or> map_of (aliases cfg) (first_segment ip) \<noteq> None)"
proof -
  have ns: "\<not> skipped_import cfg w dir ip"
  proof
    assume "skipped_import cfg w dir ip"
    with assms(1) show False by (simp add: scanAndReport_import_def Let_def)
  qed
  then have start: "js_startsWith ip ''.'' \<or> js_startsWith ip ''@''" by (rule reached_start)
  note absent = js_get_Absent [OF start]
  obtain r where r: "resolveImportPath cfg w filePath ip = Inr r"
    using resolveImportPath_own [OF start] by blast
  show ?thesis
  proof (cases "js_startsWith ip ''.''")
    case True
    show ?thesis
    proof (cases "findMatchingAlias cfg r")
      case None
      with assms ns True r show ?thesis
        by (simp add: scanAndReport_import_def Let_def split: if_splits)
    next
      case (Some a)
      show ?thesis
      proof (cases r)
        case rn: None
        with Some show ?thesis by (simp add: findMatchingAlias_def)
      next
        case rs: (Some rp)
        show ?thesis
        proof (cases "convertToAliasPath cfg w (Some rp) a")
          case (Inl e)
          with assms ns True Some r rs show ?thesis
            by (simp add: scanAndReport_import_def Let_def)
        next
          case (Inr new)
          with assms ns True Some r rs have "new = Some ip'"
            by (simp add: scanAndReport_import_def Let_def split: if_splits)
          with Inr r rs start True show ?thesis by auto
        qed
      qed
    qed
  next
    case False
    have at: "js_startsWith ip ''@''"
    proof (rule ccontr)
      assume "\<not> js_startsWith ip ''@''"
      with assms ns False r show False by (simp add: scanAndReport_import_def Let_def)
    qed
    have known: "\<not> (map_of (aliases cfg) (full_alias ip) = None
                    \<and> map_of (aliases cfg) (first_segment ip) = None)"
    proof
      assume "map_of (aliases cfg) (full_alias ip) = None \<and> map_of (aliases cfg) (first_segment ip) = None"
      then have "js_get (aliases cfg) (full_alias ip) = Absent"
        "js_get (aliases cfg) (first_segment ip) = Absent" by (simp_all add: absent)
      with assms ns False at r show False by (simp add: scanAndReport_import_def Let_def)
    qed
    then have listed: "\<not> (js_get (aliases cfg) (full_alias ip) = Absent
                         \<and> js_get (aliases cfg) (first_segment ip) = Absent)"
      by (simp add: absent)
    show ?thesis
    proof (cases r)
      case None
      with assms ns False at listed r show ?thesis
        by (simp add: scanAndReport_import_def Let_def)
    next
      case rs: (Some rp)
      show ?thesis
      proof (cases "expected_path cfg (full_alias ip) (first_segment ip)")
        case en: None
        with assms ns False at listed r rs show ?thesis
          by (simp add: scanAndReport_import_def Let_def)
      next
        case (Some ep)
        show ?thesis
        proof (cases "findMatchingAlias cfg (Some rp)")
          case fn: None
          with assms ns False at listed r rs Some show ?thesis
            by (simp add: scanAndReport_import_def Let_def split: if_splits)
        next
          case fs: (Some a)
          show ?thesis
          proof (cases "convertToAliasPath cfg w (Some rp) a")
            case (Inl e)
            with assms ns False at listed r rs Some fs show ?thesis
              by (simp add: scanAndReport_import_def Let_def split: if_splits)
          next
            case (Inr new)
            with assms ns False at listed r rs Some fs have "new = Some ip'"
              by (simp add: scanAndReport_import_def Let_def split: if_splits)
            with Inr r rs start known show ?thesis by blast
          qed
        qed
      qed
    qed
  qed
qed

lemma no_rule_no_special_case:
  assumes "find_special cfg s = None"
    and "scanAndReport_import cfg w sols dir autoFix dryRun filePath s ln = Inr (Some j, written)"
  shows "\<not> js_startsWith (issue j) ''Special case: ''"
proof -
  have ns: "\<not> skipped_import cfg w dir s"
  proof
    assume "skipped_import cfg w dir s"
    with assms(2) show False by (simp add: scanAndReport_import_def Let_def)
  qed
  then obtain r where r: "resolveImportPath cfg w filePath s = Inr r"
    by (rule resolveImportPath_reached)
  show ?thesis
  proof (cases "js_startsWith s ''.''")
    case True
    with assms ns r have "js_startsWith (issue j) ''Relative import ''"
      by (auto simp: scanAndReport_import_def Let_def new_issue_def js_startsWith_def
          split: if_splits option.splits sum.splits)
    then show ?thesis by (auto simp: js_startsWith_def prefix_def)
  next
    case False
    with assms ns r have "js_startsWith (issue j) ''Unknown alias '' \<or> js_startsWith (issue j) ''Alias ''"
      by (auto simp: scanAndReport_import_def Let_def new_issue_def js_startsWith_def
          split: if_splits option.splits prod.splits sum.splits)
    then show ?thesis by (auto simp: js_startsWith_def prefix_def)
  qed
qed



lemma alias_specifier_settled_repocheck:
  assumes wd: "js_startsWith (cwd w) ''/''"
    and paths: "\<forall>(k, kc) \<in> set (aliases cfg).
                  js_startsWith (alias_path kc) ''/'' \<and> path_resolve (cwd w) [alias_path kc] = alias_path kc"
    and names: "\<forall>(k, kc) \<in> set (aliases cfg).
                  \<not> js_startsWith k ''.'' \<and> [] \<notin> set (js_split CHR ''/'' k)
                  \<and> ''..'' \<notin> set (js_split CHR ''/'' k)"
    and a: "map_of (aliases cfg) a = Some ac"
    and ts: "\<forall>g \<in> set ts. g \<noteq> [] \<and> g \<noteq> ''..'' \<and> CHR ''/'' \<notin> set g"
    and s: "s = a @ ''/'' @ js_join ''/'' ts"
    and norule: "find_special cfg s = None"
  shows "repocheck_import cfg w sols dir autoFix interactiveFlag confirmFix filePath s ln = Inr (None, None)
         \<or> (\<exists>j. repocheck_import cfg w sols dir autoFix interactiveFlag confirmFix filePath s ln = Inr (Some j, None)
                \<and> js_startsWith (issue j) ''Unknown alias '')"
proof (cases "skipped_import cfg w dir s")
  case True
  then show ?thesis by (simp add: repocheck_import_def decide_fix_def Let_def)
next
  case False
  from a have ain: "(a, ac) \<in> set (aliases cfg)" by (rule map_of_SomeD)
  with names have an: "\<not> js_startsWith a ''.''" "[] \<notin> set (js_split CHR ''/'' a)"
    "''..'' \<notin> set (js_split CHR ''/'' a)" by auto
  note seg = rewritten_specifier_segments [OF an(2,3) ts s]
  have dot: "\<not> js_startsWith s ''.''"
    using an(1) seg(1,2,3) by (simp add: starts_with_char)
  with False have at: "js_startsWith s ''@''" by (auto simp: skipped_import_def)
  then have slash: "hd s \<noteq> CHR ''/''" by (simp add: starts_with_char)
  from at have start: "js_startsWith s ''.'' \<or> js_startsWith s ''@''" by simp
  note absent = js_get_Absent [OF start]
  obtain r where r: "resolveImportPath cfg w filePath s = Inr r"
    using resolveImportPath_own [OF start] by blast
  have fa: "full_alias s = two_segments s"
    using seg(4) by (simp add: full_alias_def js_includes_char)
  have under: "js_startsWith rp (alias_path kc)"
    if k: "map_of (aliases cfg) x = Some kc" and x: "x = first_segment s \<or> x = two_segments s"
      and rp: "exists_source w (path_resolve (cwd w) [alias_path kc, js_replace s (x @ ''/'') []]) = Some rp"
    for x kc rp
  proof -
    from k have "(x, kc) \<in> set (aliases cfg)" by (rule map_of_SomeD)
    with paths have p: "js_startsWith (alias_path kc) ''/''"
      "path_resolve (cwd w) [alias_path kc] = alias_path kc" by auto
    from relative_part_clean [OF seg(4) seg(2) slash seg(5) seg(6) x]
    have q: "js_replace s (x @ ''/'') [] = [] \<or> hd (js_replace s (x @ ''/'') []) \<noteq> CHR ''/''"
      "''..'' \<notin> set (js_split CHR ''/'' (js_replace s (x @ ''/'') []))" by simp_all
    from rp have "rp = path_resolve (cwd w) [alias_path kc, js_replace s (x @ ''/'') []]"
      by (simp add: exists_source_def split: if_splits)
    with path_resolve_under [OF p q] show ?thesis by simp
  qed
  show ?thesis
  proof (cases "map_of (aliases cfg) (full_alias s)")
    case (Some ac1)
    from Some paths have ne: "alias_path ac1 \<noteq> []"
      by (auto dest!: map_of_SomeD simp: starts_with_char)
    then have ep: "expected_path cfg (full_alias s) (first_segment s) = Some (alias_path ac1)"
      using Some by (simp add: expected_path_own [OF start] js_or_def)
    have res: "r = exists_source w
                     (path_resolve (cwd w) [alias_path ac1, js_replace s (full_alias s @ ''/'') []])"
      using dot Some r by (simp add: resolveImportPath_own [OF start])
    have ok: "js_startsWith rp (alias_path ac1)" if "r = Some rp" for rp
      using under [of "two_segments s" ac1 rp] Some that res fa by simp
    from Some have known: "js_get (aliases cfg) (full_alias s) \<noteq> Absent"
      by (simp add: absent)
    show ?thesis
    proof (cases r)
      case None
      with False norule dot at known ep r show ?thesis
        by (simp add: repocheck_import_def decide_fix_def Let_def)
    next
      case rs: (Some rp)
      with ok have "js_startsWith rp (alias_path ac1)" by simp
      with False norule dot at known ep r rs show ?thesis
        by (simp add: repocheck_import_def decide_fix_def Let_def)
    qed
  next
    case None
    show ?thesis
    proof (cases "map_of (aliases cfg) (first_segment s)")
      case n2: None
      with None have unknown: "js_get (aliases cfg) (full_alias s) = Absent"
        "js_get (aliases cfg) (first_segment s) = Absent"
        by (simp_all add: absent)
      with False norule dot at r show ?thesis
        by (simp add: repocheck_import_def decide_fix_def Let_def new_issue_def js_startsWith_def)
    next
      case (Some ac2)
      have ep: "expected_path cfg (full_alias s) (first_segment s) = Some (alias_path ac2)"
        using None Some by (simp add: expected_path_own [OF start] js_or_def)
      have res: "r = exists_source w
                       (path_resolve (cwd w) [alias_path ac2, js_replace s (first_segment s @ ''/'') []])"
        using dot None Some r by (simp add: resolveImportPath_own [OF start])
      have ok: "js_startsWith rp (alias_path ac2)" if "r = Some rp" for rp
        using under [of "first_segment s" ac2 rp] Some that res by simp
      from Some have known: "js_get (aliases cfg) (first_segment s) \<noteq> Absent"
        by (simp add: absent)
      show ?thesis
      proof (cases r)
        case rn: None
        with False norule dot at known ep r show ?thesis
          by (simp add: repocheck_import_def decide_fix_def Let_def)
      next
        case rs: (Some rp)
        with ok have "js_startsWith rp (alias_path ac2)" by simp
        with False norule dot at known ep r rs show ?thesis
          by (simp add: repocheck_import_def decide_fix_def Let_def)
      qed
    qed
  qed
qed


lemma alias_fix_origin_repocheck:
  assumes "repocheck_import cfg w sols dir autoFix interactiveFlag confirmFix filePath ip ln = Inr (Some i, Some ip')"
    and "find_special cfg ip = None"
  shows "\<exists>rp a. resolveImportPath cfg w filePath ip = Inr (Some rp)
           \<and> convertToAliasPath cfg w (Some rp) a = Inr (Some ip')
           \<and> (js_startsWith ip ''.'' \<or> js_startsWith ip ''@'')
           \<and> (js_startsWith ip ''.'' \<or> map_of (aliases cfg) (full_alias ip) \<noteq> None
               \<or> map_of (aliases cfg) (first_segment ip) \<noteq> None)"
proof -
  have ns: "\<not> skipped_import cfg w dir ip"
  proof
    assume "skipped_import cfg w dir ip"
    with assms(1) show False by (simp add: repocheck_import_def decide_fix_def Let_def)
  qed
  then have start: "js_startsWith ip ''.'' \<or> js_startsWith ip ''@''" by (rule reached_start)
  note absent = js_get_Absent [OF start]
  obtain r where r: "resolveImportPath cfg w filePath ip = Inr r"
    using resolveImportPath_own [OF start] by blast
  show ?thesis
  proof (cases "js_startsWith ip ''.''")
    case True
    show ?thesis
    proof (cases "findMatchingAlias cfg r")
      case None
      with assms ns True r show ?thesis
        by (simp add: repocheck_import_def decide_fix_def Let_def split: if_splits)
    next
      case (Some a)
      show ?thesis
      proof (cases r)
        case rn: None
        with Some show ?thesis by (simp add: findMatchingAlias_def)
      next
        case rs: (Some rp)
        show ?thesis
        proof (cases "convertToAliasPath cfg w (Some rp) a")
          case (Inl e)
          with assms ns True Some r rs show ?thesis
            by (simp add: repocheck_import_def decide_fix_def Let_def)
        next
          case (Inr new)
          with assms ns True Some r rs have "new = Some ip'"
            by (simp add: repocheck_import_def decide_fix_def Let_def split: if_splits)
          with Inr r rs start True show ?thesis by auto
        qed
      qed
    qed
  next
    case False
    have at: "js_startsWith ip ''@''"
    proof (rule ccontr)
      assume "\<not> js_startsWith ip ''@''"
      with assms ns False r show False by (simp add: repocheck_import_def decide_fix_def Let_def)
    qed
    have known: "\<not> (map_of (aliases cfg) (full_alias ip) = None
                    \<and> map_of (aliases cfg) (first_segment ip) = None)"
    proof
      assume "map_of (aliases cfg) (full_alias ip) = None \<and> map_of (aliases cfg) (first_segment ip) = None"
      then have "js_get (aliases cfg) (full_alias ip) = Absent"
        "js_get (aliases cfg) (first_segment ip) = Absent" by (simp_all add: absent)
      with assms ns False at r show False by (simp add: repocheck_import_def decide_fix_def Let_def)
    qed
    then have listed: "\<not> (js_get (aliases cfg) (full_alias ip) = Absent
                         \<and> js_get (aliases cfg) (first_segment ip) = Absent)"
      by (simp add: absent)
    show ?thesis
    proof (cases r)
      case None
      with assms ns False at listed r show ?thesis
        by (simp add: repocheck_import_def decide_fix_def Let_def)
    next
      case rs: (Some rp)
      show ?thesis
      proof (cases "expected_path cfg (full_alias ip) (first_segment ip)")
        case en: None
        with assms ns False at listed r rs show ?thesis
          by (simp add: repocheck_import_def decide_fix_def Let_def)
      next
        case (Some ep)
        show ?thesis
        proof (cases "findMatchingAlias cfg (Some rp)")
          case fn: None
          with assms ns False at listed r rs Some show ?thesis
            by (simp add: repocheck_import_def decide_fix_def Let_def split: if_splits)
        next
          case fs: (Some a)
          show ?thesis
          proof (cases "convertToAliasPath cfg w (Some rp) a")
            case (Inl e)
            with assms ns False at listed r rs Some fs show ?thesis
              by (simp add: repocheck_import_def decide_fix_def Let_def split: if_splits)
          next
            case (Inr new)
            with assms ns False at listed r rs Some fs have "new = Some ip'"
              by (simp add: repocheck_import_def decide_fix_def Let_def split: if_splits)
            with Inr r rs start known show ?thesis by blast
          qed
        qed
      qed
    qed
  qed
qed

lemma no_rule_no_special_case_repocheck:
  assumes "find_special cfg s = None"
    and "repocheck_import cfg w sols dir autoFix interactiveFlag confirmFix filePath s ln = Inr (Some j, written)"
  shows "\<not> js_startsWith (issue j) ''Special case: ''"
proof -
  have ns: "\<not> skipped_import cfg w dir s"
  proof
    assume "skipped_import cfg w dir s"
    with assms(2) show False by (simp add: repocheck_import_def decide_fix_def Let_def)
  qed
  then obtain r where r: "resolveImportPath cfg w filePath s = Inr r"
    by (rule resolveImportPath_reached)
  show ?thesis
  proof (cases "js_startsWith s ''.''")
    case True
    with assms ns r have "js_startsWith (issue j) ''Relative import ''"
      by (auto simp: repocheck_import_def decide_fix_def Let_def new_issue_def js_startsWith_def
          split: if_splits option.splits sum.splits)
    then show ?thesis by (auto simp: js_startsWith_def prefix_def)
  next
    case False
    with assms ns r have "js_startsWith (issue j) ''Unknown alias '' \<or> js_startsWith (issue j) ''Alias ''"
      by (auto simp: repocheck_import_def decide_fix_def Let_def new_issue_def js_startsWith_def
          split: if_splits option.splits prod.splits sum.splits)
    then show ?thesis by (auto simp: js_startsWith_def prefix_def)
  qed
qed

text \<open>
  C3 (as amended). Let an import declaration have been rewritten to the specifier
  \<open>ip'\<close>, and let \<open>ip'\<close> match no override rule. Then a further pass reports no
  \<open>Special case\<close> issue for it. If moreover the fix came from the alias checks (the old
  specifier matched no override rule), the alias table is as the setup writes it
  and the resolved path has no backslash, the further pass reports nothing for the
  declaration, or that its alias root is unknown, and rewrites nothing: no
  \<open>Relative import should use alias\<close>, no \<open>resolves incorrectly\<close> and no \<open>Special case\<close> issue
  recurs, and the pass does not throw. This holds for \<open>scanAndReport\<close> and for
  \<open>repocheck\<close>.
\<close>

theorem reclassify_fixed_import:
  assumes "find_special cfg ip' = None"
  shows "(\<forall>j written.
            scanAndReport_import cfg w sols dir againFix againDry filePath ip' ln = Inr (Some j, written)
              \<longrightarrow> \<not> js_startsWith (issue j) ''Special case: '')
         \<and> (\<forall>j written.
              repocheck_import cfg w sols dir againFix againFlag againConfirm filePath ip' ln
                = Inr (Some j, written)
              \<longrightarrow> \<not> js_startsWith (issue j) ''Special case: '')
         \<and> (clean_aliases cfg w \<and> find_special cfg ip = None
              \<and> resolveImportPath cfg w filePath ip = Inr (Some rp) \<and> CHR 0x5C \<notin> set rp
              \<and> scanAndReport_import cfg w sols dir autoFix dryRun filePath ip ln = Inr (Some i, Some ip')
              \<longrightarrow> scanAndReport_import cfg w sols dir againFix againDry filePath ip' ln = Inr (None, None)
                  \<or> (\<exists>j. scanAndReport_import cfg w sols dir againFix againDry filePath ip' ln
                           = Inr (Some j, None)
                         \<and> js_startsWith (issue j) ''Unknown alias ''))
         \<and> (clean_aliases cfg w \<and> find_special cfg ip = None
              \<and> resolveImportPath cfg w filePath ip = Inr (Some rp) \<and> CHR 0x5C \<notin> set rp
              \<and> repocheck_import cfg w sols dir autoFix interactiveFlag confirmFix filePath ip ln
                  = Inr (Some i, Some ip')
              \<longrightarrow> repocheck_import cfg w sols dir againFix againFlag againConfirm filePath ip' ln
                    = Inr (None, None)
                  \<or> (\<exists>j. repocheck_import cfg w sols dir againFix againFlag againConfirm filePath ip' ln
                           = Inr (Some j, None)
                         \<and> js_startsWith (issue j) ''Unknown alias ''))"
proof -
  have shape: "\<exists>a ac ts. map_of (aliases cfg) a = Some ac \<and> ip' = a @ ''/'' @ js_join ''/'' ts
                     \<and> (\<forall>g \<in> set ts. g \<noteq> [] \<and> g \<noteq> ''..'' \<and> CHR ''/'' \<notin> set g)"
    if c: "clean_aliases cfg w" and r: "resolveImportPath cfg w filePath ip = Inr (Some rp)"
      and b: "CHR 0x5C \<notin> set rp"
      and o: "\<exists>rp a. resolveImportPath cfg w filePath ip = Inr (Some rp)
                \<and> convertToAliasPath cfg w (Some rp) a = Inr (Some ip')
                \<and> (js_startsWith ip ''.'' \<or> js_startsWith ip ''@'')
                \<and> (js_startsWith ip ''.'' \<or> map_of (aliases cfg) (full_alias ip) \<noteq> None
                    \<or> map_of (aliases cfg) (first_segment ip) \<noteq> None)"
  proof -
    from c have wd: "js_startsWith (cwd w) ''/''" by (simp add: clean_aliases_def)
    from o r obtain a where cv: "convertToAliasPath cfg w (Some rp) a = Inr (Some ip')"
      and st: "js_startsWith ip ''.'' \<or> js_startsWith ip ''@''"
      and k: "js_startsWith ip ''.'' \<or> map_of (aliases cfg) (full_alias ip) \<noteq> None
              \<or> map_of (aliases cfg) (first_segment ip) \<noteq> None" by auto
    from resolved_is_absolute [OF wd r st k] have "js_startsWith rp ''/''" .
    from convertToAliasPath_structure [OF wd this b cv] show ?thesis by blast
  qed
  have wd: "js_startsWith (cwd w) ''/''"
    and paths: "\<forall>(k, kc) \<in> set (aliases cfg).
                  js_startsWith (alias_path kc) ''/'' \<and> path_resolve (cwd w) [alias_path kc] = alias_path kc"
    and names: "\<forall>(k, kc) \<in> set (aliases cfg).
                  \<not> js_startsWith k ''.'' \<and> [] \<notin> set (js_split CHR ''/'' k)
                  \<and> ''..'' \<notin> set (js_split CHR ''/'' k)"
    if "clean_aliases cfg w"
    using that by (auto simp: clean_aliases_def list_all_iff)
  have a: "\<not> js_startsWith (issue j) ''Special case: ''"
    if "scanAndReport_import cfg w sols dir againFix againDry filePath ip' ln = Inr (Some j, written)"
    for j written
    using assms that by (rule no_rule_no_special_case)
  have b: "\<not> js_startsWith (issue j) ''Special case: ''"
    if "repocheck_import cfg w sols dir againFix againFlag againConfirm filePath ip' ln
          = Inr (Some j, written)"
    for j written
    using assms that by (rule no_rule_no_special_case_repocheck)
  have c: "scanAndReport_import cfg w sols dir againFix againDry filePath ip' ln = Inr (None, None)
           \<or> (\<exists>j. scanAndReport_import cfg w sols dir againFix againDry filePath ip' ln
                    = Inr (Some j, None)
                  \<and> js_startsWith (issue j) ''Unknown alias '')"
    if h: "clean_aliases cfg w" "find_special cfg ip = None"
      "resolveImportPath cfg w filePath ip = Inr (Some rp)" "CHR 0x5C \<notin> set rp"
      "scanAndReport_import cfg w sols dir autoFix dryRun filePath ip ln = Inr (Some i, Some ip')"
  proof -
    from shape [OF h(1,3,4) alias_fix_origin [OF h(5,2)]]
    obtain a ac ts where s: "map_of (aliases cfg) a = Some ac" "ip' = a @ ''/'' @ js_join ''/'' ts"
      "\<forall>g \<in> set ts. g \<noteq> [] \<and> g \<noteq> ''..'' \<and> CHR ''/'' \<notin> set g" by blast
    show ?thesis
      by (rule alias_specifier_settled [OF wd [OF h(1)] paths [OF h(1)] names [OF h(1)] s(1) s(3) s(2) assms])
  qed
  have d: "repocheck_import cfg w sols dir againFix againFlag againConfirm filePath ip' ln
             = Inr (None, None)
           \<or> (\<exists>j. repocheck_import cfg w sols dir againFix againFlag againConfirm filePath ip' ln
                    = Inr (Some j, None)
                  \<and> js_startsWith (issue j) ''Unknown alias '')"
    if h: "clean_aliases cfg w" "find_special cfg ip = None"
      "resolveImportPath cfg w filePath ip = Inr (Some rp)" "CHR 0x5C \<notin> set rp"
      "repocheck_import cfg w sols dir autoFix interactiveFlag confirmFix filePath ip ln
         = Inr (Some i, Some ip')"
  proof -
    from shape [OF h(1,3,4) alias_fix_origin_repocheck [OF h(5,2)]]
    obtain a ac ts where s: "map_of (aliases cfg) a = Some ac" "ip' = a @ ''/'' @ js_join ''/'' ts"
      "\<forall>g \<in> set ts. g \<noteq> [] \<and> g \<noteq> ''..'' \<and> CHR ''/'' \<notin> set g" by blast
    show ?thesis
      by (rule alias_specifier_settled_repocheck [OF wd [OF h(1)] paths [OF h(1)] names [OF h(1)] s(1) s(3) s(2) assms])
  qed
  from a b c d show ?thesis by blast
qed

lemma button_first_pass:
  "scanAndReport_import two_aliases ui_world [] example_dir True False
     ''/proj/src/x.ts'' ''./components/Button'' 2 =
     Inr (Some \<lparr> inFile = ''src/x.ts'', line = 2, importPath = ''./components/Button'',
                 issue = ''Relative import should use alias '' @ quoted ''@app'',
                 suggestion = Some (''Change to: import ... from '' @ quoted ''@app/components/Button''),
                 fixed = True, commented = False, userChoice = None \<rparr>,
          Some ''@app/components/Button'')"
proof -
  have ns: "\<not> skipped_import two_aliases ui_world example_dir ''./components/Button''"
    by (simp add: skipped_import_def js_startsWith_def)
  show ?thesis
    by (simp add: scanAndReport_import_def ns button_hyps button_resolved button_alias button_rewritten
        new_issue_def ui_cwd rel_example Let_def)
qed

lemma two_aliases_clean: "clean_aliases two_aliases ui_world"
  by code_simp

lemma button_no_rule: "find_special two_aliases ''@app/components/Button'' = None"
  by (simp add: find_special_def two_aliases_def)

theorem reclassify_fixed_import_witness:
  "find_special two_aliases ''@app/components/Button'' = None
   \<and> clean_aliases two_aliases ui_world
   \<and> find_special two_aliases ''./components/Button'' = None
   \<and> resolveImportPath two_aliases ui_world ''/proj/src/x.ts'' ''./components/Button''
       = Inr (Some ''/proj/src/components/Button'')
   \<and> CHR 0x5C \<notin> set ''/proj/src/components/Button''
   \<and> (\<exists>i. scanAndReport_import two_aliases ui_world [] example_dir True False
             ''/proj/src/x.ts'' ''./components/Button'' 2 = Inr (Some i, Some ''@app/components/Button''))
   \<and> scanAndReport_import two_aliases ui_world [] example_dir True False
        ''/proj/src/x.ts'' ''@app/components/Button'' 2 = Inr (None, None)"
proof -
  have nb: "CHR 0x5C \<notin> set ''/proj/src/components/Button''" by simp
  have second: "scanAndReport_import two_aliases ui_world [] example_dir True False
        ''/proj/src/x.ts'' ''@app/components/Button'' 2 = Inr (None, None)"
    by code_simp
  from reclassify_fixed_import [OF button_no_rule, where w = ui_world and sols = "[]"
      and dir = example_dir and againFix = True and againDry = False and filePath = "''/proj/src/x.ts''"
      and ln = 2 and ip = "''./components/Button''" and rp = "''/proj/src/components/Button''"
      and autoFix = True and dryRun = False]
    two_aliases_clean button_hyps(2) button_resolved nb button_first_pass
  have "scanAndReport_import two_aliases ui_world [] example_dir True False
          ''/proj/src/x.ts'' ''@app/components/Button'' 2 = Inr (None, None)
        \<or> (\<exists>j. scanAndReport_import two_aliases ui_world [] example_dir True False
                 ''/proj/src/x.ts'' ''@app/components/Button'' 2 = Inr (Some j, None)
               \<and> js_startsWith (issue j) ''Unknown alias '')"
    by blast
  with second button_no_rule two_aliases_clean button_hyps(2) button_resolved nb button_first_pass
  show ?thesis by simp
qed

text \<open>
  The claim as stated fails: a rule whose replacement still matches the rule is
  reported and applied again on every pass, and the file changes each time.
\<close>

theorem rename_fix_applied_again:
  "scanAndReport_import self_matching_rule example_world [] example_dir True False
     ''/proj/src/x.ts'' ''@old/lib'' 1 =
     Inr (Some \<lparr> inFile = ''src/x.ts'', line = 1, importPath = ''@old/lib'',
                 issue = ''Special case: rename'',
                 suggestion = Some (''Rename to: import ... from '' @ quoted ''@old/v2/lib''),
                 fixed = True, commented = False, userChoice = None \<rparr>,
          Some ''@old/v2/lib'')
   \<and> scanAndReport_import self_matching_rule example_world [] example_dir True False
       ''/proj/src/x.ts'' ''@old/v2/lib'' 1 =
     Inr (Some \<lparr> inFile = ''src/x.ts'', line = 1, importPath = ''@old/v2/lib'',
                 issue = ''Special case: rename'',
                 suggestion = Some (''Rename to: import ... from '' @ quoted ''@old/v2/v2/lib''),
                 fixed = True, commented = False, userChoice = None \<rparr>,
          Some ''@old/v2/v2/lib'')"
proof -
  have none: "community_suggestion False [] ip = None" for ip
    by (simp add: community_suggestion_def find_community_def)
  have f: "find_special self_matching_rule ''@old/lib'' =
             Some (''@old'', \<lparr> sc_action = Rename, sc_value = Some ''@old/v2'', sc_prefixOnly = True \<rparr>)"
    "find_special self_matching_rule ''@old/v2/lib'' =
             Some (''@old'', \<lparr> sc_action = Rename, sc_value = Some ''@old/v2'', sc_prefixOnly = True \<rparr>)"
    by (simp_all add: find_special_def self_matching_rule_def js_startsWith_def)
  have n: "special_new_path ''@old/lib'' ''@old''
             \<lparr> sc_action = Rename, sc_value = Some ''@old/v2'', sc_prefixOnly = True \<rparr> = Some ''@old/v2/lib''"
    "special_new_path ''@old/v2/lib'' ''@old''
             \<lparr> sc_action = Rename, sc_value = Some ''@old/v2'', sc_prefixOnly = True \<rparr> = Some ''@old/v2/v2/lib''"
    by (simp_all add: special_new_path_def js_replace_def)
  have r: "\<not> skipped_import self_matching_rule example_world example_dir ''@old/lib''"
    "\<not> skipped_import self_matching_rule example_world example_dir ''@old/v2/lib''"
    by (simp_all add: skipped_import_def self_matching_rule_def example_world_def example_dir_def
        js_startsWith_def has_dependency_def first_segment_def path_resolve_def)
  have p: "resolveImportPath self_matching_rule example_world ''/proj/src/x.ts'' ''@old/lib'' = Inr None"
    "resolveImportPath self_matching_rule example_world ''/proj/src/x.ts'' ''@old/v2/lib'' = Inr None"
    by (simp_all add: resolveImportPath_own js_startsWith_def self_matching_rule_def example_world_def)
  show ?thesis
    by (simp add: scanAndReport_import_def f n r p none new_issue_def js_or_def example_cwd rel_example
        Let_def)
qed

section \<open>The time and the failures of the retrieval\<close>




end
